theory Spec2Isabelle
  imports Main "HOL-Library.Multiset" "HOL-Library.Sublist"
begin

section \<open>Text matching: the part of Python's \<open>re\<close> module the interceptor uses\<close>

text \<open>
  The interceptor of \<^verbatim>\<open>task_b_call_interceptor.py\<close> compiles six regular expressions
  and calls \<^verbatim>\<open>findall\<close> and \<^verbatim>\<open>search\<close> on them. A Python \<^verbatim>\<open>str\<close> is a
  sequence of code points; here a string is a \<^typ>\<open>string\<close>, so the characters are the code
  points below 256. The character classes below are those of \<^verbatim>\<open>re\<close> on that range.
\<close>

definition is_space :: "char \<Rightarrow> bool" where
  "is_space c = (c \<in> set [CHR 0x09, CHR 0x0A, CHR 0x0B, CHR 0x0C, CHR 0x0D,
     CHR 0x1C, CHR 0x1D, CHR 0x1E, CHR 0x1F, CHR 0x20, CHR 0x85, CHR 0xA0])"

definition is_digit :: "char \<Rightarrow> bool" where
  "is_digit c = (c \<in> set ''0123456789'')"

definition is_word :: "char \<Rightarrow> bool" where
  "is_word c =
     (c \<in> set ''abcdefghijklmnopqrstuvwxyzABCDEFGHIJKLMNOPQRSTUVWXYZ0123456789_'' \<or>
      c \<in> set [CHR 0xAA, CHR 0xB2, CHR 0xB3, CHR 0xB5, CHR 0xB9, CHR 0xBA,
                 CHR 0xBC, CHR 0xBD, CHR 0xBE] \<or>
      (let n = (of_char c :: nat)
       in (0xC0 \<le> n \<and> n \<le> 0xD6) \<or> (0xD8 \<le> n \<and> n \<le> 0xF6) \<or> 0xF8 \<le> n))"

definition ascii_lower :: "char \<Rightarrow> char" where
  "ascii_lower c =
     (case map_of (zip ''ABCDEFGHIJKLMNOPQRSTUVWXYZ'' ''abcdefghijklmnopqrstuvwxyz'') c of
        Some l \<Rightarrow> l
      | None \<Rightarrow> c)"

record flags =
  IGNORECASE :: bool
  DOTALL :: bool

datatype atom = Chr char | Space | Digit | Dot | OneOf "char list"

text \<open>
  \<open>Rep a lo hi greedy\<close> is \<^verbatim>\<open>a{lo,hi}\<close> (\<open>hi = None\<close>: unbounded), lazy when
  \<open>greedy\<close> is false. Every quantifier of the six patterns is on a single character.
\<close>

datatype regex =
    Atom atom
  | Lit string
  | Rep atom nat "nat option" bool
  | Cat "regex list"
  | Alt "regex list"
  | Group nat regex
  | Backref nat
  | WordB

text \<open>
  A literal of a pattern is compared with \<open>IGNORECASE\<close> by lower-casing both sides. The
  literals of the six patterns are ASCII, and below 256 an ASCII letter has no case partner
  other than its ASCII one.
\<close>

definition chr_eq :: "flags \<Rightarrow> char \<Rightarrow> char \<Rightarrow> bool" where
  "chr_eq f x c = (if IGNORECASE f then ascii_lower x = ascii_lower c else x = c)"

fun atom_ok :: "flags \<Rightarrow> atom \<Rightarrow> char \<Rightarrow> bool" where
  "atom_ok f (Chr x) c = chr_eq f x c"
| "atom_ok f Space c = is_space c"
| "atom_ok f Digit c = is_digit c"
| "atom_ok f Dot c = (DOTALL f \<or> c \<noteq> CHR 0x0A)"
| "atom_ok f (OneOf xs) c = (\<exists>x \<in> set xs. chr_eq f x c)"

text \<open>
  The state of a match attempt: the character before the current position (for \<^verbatim>\<open>\b\<close>),
  the text from the current position on, and the groups captured so far (latest first).
\<close>

type_synonym mstate = "char option \<times> string \<times> (nat \<times> string) list"

text \<open>The states after 0, 1, 2, ... characters accepted by \<open>ok\<close>, at most \<open>hi\<close> of them.\<close>

fun reps :: "(char \<Rightarrow> bool) \<Rightarrow> nat option \<Rightarrow> mstate \<Rightarrow> mstate list" where
  "reps ok hi (p, [], g) = [(p, [], g)]"
| "reps ok hi (p, c # cs, g) =
     (p, c # cs, g) #
     (if ok c \<and> hi \<noteq> Some 0 then reps ok (map_option (\<lambda>h. h - 1) hi) (Some c, cs, g) else [])"

fun match_text :: "flags \<Rightarrow> string \<Rightarrow> mstate \<Rightarrow> mstate list" where
  "match_text f [] s = [s]"
| "match_text f (x # xs) (p, [], g) = []"
| "match_text f (x # xs) (p, c # cs, g) =
     (if chr_eq f x c then match_text f xs (Some c, cs, g) else [])"

definition word_before :: "char option \<Rightarrow> bool" where
  "word_before p = (case p of None \<Rightarrow> False | Some c \<Rightarrow> is_word c)"

definition word_after :: "string \<Rightarrow> bool" where
  "word_after cs = (case cs of [] \<Rightarrow> False | c # _ \<Rightarrow> is_word c)"

text \<open>
  The backtracking matcher, as the list of its successes in the order in which \<^verbatim>\<open>re\<close>
  tries them: the first element is the match \<^verbatim>\<open>re\<close> reports.
\<close>

fun m :: "flags \<Rightarrow> regex \<Rightarrow> mstate \<Rightarrow> mstate list"
  and m_cat :: "flags \<Rightarrow> regex list \<Rightarrow> mstate \<Rightarrow> mstate list"
  and m_alt :: "flags \<Rightarrow> regex list \<Rightarrow> mstate \<Rightarrow> mstate list" where
  "m f (Atom a) (p, cs, g) =
     (case cs of [] \<Rightarrow> [] | c # cs' \<Rightarrow> if atom_ok f a c then [(Some c, cs', g)] else [])"
| "m f (Lit t) s = match_text f t s"
| "m f (Rep a lo hi greedy) s =
     (let ss = drop lo (reps (atom_ok f a) hi s) in if greedy then rev ss else ss)"
| "m f (Cat rs) s = m_cat f rs s"
| "m f (Alt rs) s = m_alt f rs s"
| "m f (Group n r) (p, cs, g) =
     map (\<lambda>(p', cs', g'). (p', cs', (n, take (length cs - length cs') cs) # g'))
       (m f r (p, cs, g))"
| "m f (Backref n) (p, cs, g) =
     (case map_of g n of None \<Rightarrow> [] | Some t \<Rightarrow> match_text f t (p, cs, g))"
| "m f WordB (p, cs, g) = (if word_before p \<noteq> word_after cs then [(p, cs, g)] else [])"
| "m_cat f [] s = [s]"
| "m_cat f (r # rs) s = concat (map (m_cat f rs) (m f r s))"
| "m_alt f [] s = []"
| "m_alt f (r # rs) s = m f r s @ m_alt f rs s"

text \<open>A compiled pattern: the expression, its flags and the number of its groups.\<close>

record pattern =
  expr :: regex
  pflags :: flags
  ngroups :: nat

text \<open>
  The leftmost match at or after the current position: the text from the start of the match
  and the state at its end.
\<close>

fun first_match :: "pattern \<Rightarrow> char option \<Rightarrow> string \<Rightarrow> (string \<times> mstate) option" where
  "first_match pat p [] =
     (case m (pflags pat) (expr pat) (p, [], []) of
        [] \<Rightarrow> None
      | s # _ \<Rightarrow> Some ([], s))"
| "first_match pat p (c # cs) =
     (case m (pflags pat) (expr pat) (p, c # cs, []) of
        [] \<Rightarrow> first_match pat (Some c) cs
      | s # _ \<Rightarrow> Some (c # cs, s))"

text \<open>\<^verbatim>\<open>pattern.search(content)\<close>, as the truth value the interceptor takes of it.\<close>

definition search :: "pattern \<Rightarrow> string \<Rightarrow> bool" where
  "search pat content = (first_match pat None content \<noteq> None)"

text \<open>
  An element of the list \<^verbatim>\<open>findall\<close> returns: the whole match for a pattern without
  groups, the group for a pattern with one group, the tuple of the groups otherwise. A group
  that took no part in the match is the empty string.
\<close>

datatype found = FStr string | FTuple "string list"

definition group_text :: "(nat \<times> string) list \<Rightarrow> nat \<Rightarrow> string" where
  "group_text g n = (case map_of g n of None \<Rightarrow> [] | Some t \<Rightarrow> t)"

definition found_of :: "pattern \<Rightarrow> string \<Rightarrow> mstate \<Rightarrow> found" where
  "found_of pat start s =
     (case s of (p', rest, g) \<Rightarrow>
        if ngroups pat = 0 then FStr (take (length start - length rest) start)
        else if ngroups pat = 1 then FStr (group_text g 1)
        else FTuple (map (group_text g) [1 ..< Suc (ngroups pat)]))"

text \<open>
  \<^verbatim>\<open>pattern.findall(content)\<close>: the matches from left to right, each search starting where
  the last match ended. None of the six patterns matches the empty string (lemma
  \<open>registry_consumes\<close> below), so every match moves the position forward; for a pattern
  that does match the empty string the scan below stops at such a match.
\<close>

function findall_from :: "pattern \<Rightarrow> char option \<Rightarrow> string \<Rightarrow> found list" where
  "findall_from pat p cs =
     (case first_match pat p cs of
        None \<Rightarrow> []
      | Some (start, (p', rest, g)) \<Rightarrow>
          found_of pat start (p', rest, g) #
          (if length rest < length cs then findall_from pat p' rest else []))"
  by pat_completeness auto
termination
  by (relation "measure (\<lambda>(pat, p, cs). length cs)") auto

definition findall :: "pattern \<Rightarrow> string \<Rightarrow> found list" where
  "findall pat content = findall_from pat None content"

section \<open>The pattern registry\<close>

definition no_flags :: flags where
  "no_flags = \<lparr>IGNORECASE = False, DOTALL = False\<rparr>"

definition banner_format :: pattern where
  "banner_format =
     \<lparr>expr = Cat [Group 1 (Alt [Rep (Chr (CHR ''*'')) 3 None True,
                                 Rep (Chr (CHR ''='')) 3 None True,
                                 Rep (Chr (CHR ''-'')) 3 None True]),
                  Rep Space 0 None True,
                  Group 2 (Rep Dot 1 None False),
                  Rep Space 0 None True,
                  Backref 1],
      pflags = \<lparr>IGNORECASE = False, DOTALL = True\<rparr>,
      ngroups = 2\<rparr>"

definition announcement_keyword :: pattern where
  "announcement_keyword =
     \<lparr>expr = Cat [WordB,
                  Group 1 (Alt [Lit ''announcement'', Lit ''notice'', Lit ''important'',
                                 Lit ''alert'', Lit ''update'', Lit ''news'']),
                  WordB],
      pflags = \<lparr>IGNORECASE = True, DOTALL = False\<rparr>,
      ngroups = 1\<rparr>"

definition date_reference :: pattern where
  "date_reference =
     \<lparr>expr = Cat [WordB,
                  Group 1 (Alt [Lit ''today'', Lit ''this week'', Lit ''starting'',
                                 Lit ''as of'', Lit ''effective'']),
                  Rep Space 1 None True,
                  Rep Digit 1 (Some 2) True,
                  Atom (OneOf ''/-''),
                  Rep Digit 1 (Some 2) True],
      pflags = \<lparr>IGNORECASE = True, DOTALL = False\<rparr>,
      ngroups = 1\<rparr>"

definition system_message :: pattern where
  "system_message =
     \<lparr>expr = Alt [Lit ''[system]'', Lit ''[admin]'', Lit ''[claude]''],
      pflags = \<lparr>IGNORECASE = True, DOTALL = False\<rparr>,
      ngroups = 0\<rparr>"

definition urgent_marker :: pattern where
  "urgent_marker =
     \<lparr>expr = Group 1 (Alt [Lit ''urgent'', Lit ''critical'', Lit ''breaking'',
                            Lit ''immediate'']),
      pflags = \<lparr>IGNORECASE = True, DOTALL = False\<rparr>,
      ngroups = 1\<rparr>"

definition version_info :: pattern where
  "version_info =
     \<lparr>expr = Cat [Lit ''version'',
                  Rep Space 1 None True,
                  Rep Digit 1 None True,
                  Atom (Chr (CHR ''.'')),
                  Rep Digit 1 None True],
      pflags = \<lparr>IGNORECASE = True, DOTALL = False\<rparr>,
      ngroups = 0\<rparr>"

text \<open>\<^verbatim>\<open>self.announcement_patterns\<close>, in the insertion order of the dictionary.\<close>

definition announcement_patterns :: "(string \<times> pattern) list" where
  "announcement_patterns =
     [(''banner_format'', banner_format),
      (''announcement_keyword'', announcement_keyword),
      (''date_reference'', date_reference),
      (''system_message'', system_message),
      (''urgent_marker'', urgent_marker),
      (''version_info'', version_info)]"

section \<open>The confidence scorer\<close>

definition matching_patterns :: "string \<Rightarrow> nat" where
  "matching_patterns content =
     length (filter (\<lambda>pat. search pat content) (map snd announcement_patterns))"

definition determine_confidence :: "string \<Rightarrow> found list \<Rightarrow> string \<Rightarrow> string" where
  "determine_confidence pattern_name matches content =
     (if pattern_name \<in> set [''banner_format'', ''system_message''] then ''HIGH''
      else if matching_patterns content \<ge> 3 then ''HIGH''
      else if matching_patterns content = 2 then ''MEDIUM''
      else ''LOW'')"

section \<open>Python values\<close>

text \<open>
  The parameter and response mappings are \<^verbatim>\<open>Dict[str, Any]\<close>: their values are not
  checked before use, so the model keeps them dynamic. A dictionary is an association list in
  insertion order (its keys are distinct). The two exceptions the interceptor can meet on such
  values are results of the model.
\<close>

datatype pyval =
    PNone
  | PBool bool
  | PInt int
  | PStr string
  | PList "pyval list"
  | PDict "(string \<times> pyval) list"

datatype py_error = TypeError | AttributeError

type_synonym pydict = "(string \<times> pyval) list"

text \<open>\<^verbatim>\<open>d.get(k, dflt)\<close> on a dictionary.\<close>

definition dict_get :: "pydict \<Rightarrow> string \<Rightarrow> pyval \<Rightarrow> pyval" where
  "dict_get d k dflt = (case map_of d k of None \<Rightarrow> dflt | Some v \<Rightarrow> v)"

text \<open>\<^verbatim>\<open>v.get(k, dflt)\<close> on any value: only a dictionary has the method.\<close>

fun py_get :: "pyval \<Rightarrow> string \<Rightarrow> pyval \<Rightarrow> py_error + pyval" where
  "py_get (PDict d) k dflt = Inr (dict_get d k dflt)"
| "py_get v k dflt = Inl AttributeError"

text \<open>The elements a \<^verbatim>\<open>for\<close> loop over a value visits.\<close>

fun py_iter :: "pyval \<Rightarrow> py_error + pyval list" where
  "py_iter (PList xs) = Inr xs"
| "py_iter (PDict d) = Inr (map (\<lambda>kv. PStr (fst kv)) d)"
| "py_iter (PStr s) = Inr (map (\<lambda>c. PStr [c]) s)"
| "py_iter v = Inl TypeError"

text \<open>The truth value of \<^verbatim>\<open>if v:\<close>.\<close>

fun truthy :: "pyval \<Rightarrow> bool" where
  "truthy PNone = False"
| "truthy (PBool b) = b"
| "truthy (PInt i) = (i \<noteq> 0)"
| "truthy (PStr s) = (s \<noteq> [])"
| "truthy (PList xs) = (xs \<noteq> [])"
| "truthy (PDict d) = (d \<noteq> [])"

subsection \<open>\<^verbatim>\<open>str\<close> of a number and of a list of matches\<close>

function str_of_nat :: "nat \<Rightarrow> string" where
  "str_of_nat n =
     (if n < 10 then [''0123456789'' ! n]
      else str_of_nat (n div 10) @ [''0123456789'' ! (n mod 10)])"
  by pat_completeness auto
termination
  by (relation "measure (\<lambda>n. n)") auto

definition printable :: "char \<Rightarrow> bool" where
  "printable c =
     (let n = (of_char c :: nat)
      in (0x20 \<le> n \<and> n < 0x7F) \<or> (0xA1 \<le> n \<and> n \<noteq> 0xAD))"

definition hex2 :: "char \<Rightarrow> string" where
  "hex2 c =
     (let n = (of_char c :: nat)
      in [''0123456789abcdef'' ! (n div 16), ''0123456789abcdef'' ! (n mod 16)])"

definition repr_char :: "char \<Rightarrow> char \<Rightarrow> string" where
  "repr_char q c =
     (if c = q \<or> c = CHR 0x5C then [CHR 0x5C, c]
      else if c = CHR 0x09 then [CHR 0x5C, CHR ''t'']
      else if c = CHR 0x0A then [CHR 0x5C, CHR ''n'']
      else if c = CHR 0x0D then [CHR 0x5C, CHR ''r'']
      else if printable c then [c]
      else [CHR 0x5C, CHR ''x''] @ hex2 c)"

text \<open>\<^verbatim>\<open>repr\<close> of a string: double quotes only when it has a single quote and no double one.\<close>

definition repr_str :: "string \<Rightarrow> string" where
  "repr_str s =
     (let q = (if CHR 0x27 \<in> set s \<and> CHR 0x22 \<notin> set s then CHR 0x22 else CHR 0x27)
      in [q] @ concat (map (repr_char q) s) @ [q])"

fun join_comma :: "string list \<Rightarrow> string" where
  "join_comma [] = []"
| "join_comma [x] = x"
| "join_comma (x # y # ys) = x @ '', '' @ join_comma (y # ys)"

fun repr_found :: "found \<Rightarrow> string" where
  "repr_found (FStr s) = repr_str s"
| "repr_found (FTuple [t]) = ''('' @ repr_str t @ '',)''"
| "repr_found (FTuple ts) = ''('' @ join_comma (map repr_str ts) @ '')''"

definition str_matches :: "found list \<Rightarrow> string" where
  "str_matches matches = ''['' @ join_comma (map repr_found matches) @ '']''"

section \<open>The interceptor\<close>

text \<open>
  Both dataclasses have fields \<^verbatim>\<open>timestamp\<close> and \<^verbatim>\<open>call_id\<close>, and several field
  names are parameter names of the methods, so the fields of \<^verbatim>\<open>APICall\<close> carry the
  prefix \<open>c_\<close> and those of \<^verbatim>\<open>AnnouncementIndicator\<close> the prefix \<open>i_\<close>.
\<close>

record APICall =
  c_timestamp :: string
  c_call_id :: string
  c_type :: string
  c_endpoint :: string
  c_model :: pyval
  c_messages :: pyval
  c_system_prompt :: pyval
  c_tools :: "pyval list"
  c_metadata :: pydict

record AnnouncementIndicator =
  i_timestamp :: string
  i_call_id :: string
  indicator_type :: string
  i_content :: string
  i_confidence :: string
  i_location :: string
  pattern_matched :: string

text \<open>
  The mutable attributes of \<^verbatim>\<open>CallInterceptor\<close>. \<^verbatim>\<open>call_patterns\<close> is a
  \<^verbatim>\<open>defaultdict(int)\<close>: an association list in insertion order, a key being created by
  its first increment.
\<close>

record interceptor =
  calls :: "APICall list"
  indicators :: "AnnouncementIndicator list"
  call_patterns :: "(string \<times> nat) list"

definition init :: interceptor where
  "init = \<lparr>calls = [], indicators = [], call_patterns = []\<rparr>"

text \<open>\<^verbatim>\<open>self.call_patterns[pattern_name] += 1\<close>\<close>

fun bump :: "string \<Rightarrow> (string \<times> nat) list \<Rightarrow> (string \<times> nat) list" where
  "bump k [] = [(k, 1)]"
| "bump k ((k', n) # kvs) = (if k = k' then (k', n + 1) # kvs else (k', n) # bump k kvs)"

text \<open>\<^verbatim>\<open>self.call_patterns.get(k, 0)\<close>\<close>

definition frequency :: "(string \<times> nat) list \<Rightarrow> string \<Rightarrow> nat" where
  "frequency kvs k = (case map_of kvs k of None \<Rightarrow> 0 | Some n \<Rightarrow> n)"

subsection \<open>Scanning one text\<close>

text \<open>
  The loop of \<^verbatim>\<open>_check_content_for_patterns\<close> over the registry, on a text.
\<close>

fun check_patterns ::
  "string \<Rightarrow> string \<Rightarrow> string \<Rightarrow> string \<Rightarrow> (string \<times> pattern) list \<Rightarrow> interceptor \<Rightarrow> interceptor" where
  "check_patterns call_id content location timestamp [] st = st"
| "check_patterns call_id content location timestamp ((pattern_name, pat) # others) st =
     (let matches = findall pat content
      in if matches \<noteq> [] then
           let confidence = determine_confidence pattern_name matches content;
               indicator = \<lparr>i_timestamp = timestamp,
                            i_call_id = call_id,
                            indicator_type = pattern_name,
                            i_content = take 200 (str_matches matches),
                            i_confidence = confidence,
                            i_location = location,
                            pattern_matched = pattern_name\<rparr>
           in check_patterns call_id content location timestamp others
                (st\<lparr>indicators := indicators st @ [indicator],
                    call_patterns := bump pattern_name (call_patterns st)\<rparr>)
         else check_patterns call_id content location timestamp others st)"

text \<open>
  \<^verbatim>\<open>_check_content_for_patterns\<close> on the value it is handed: \<^verbatim>\<open>findall\<close> of the
  first pattern raises \<^verbatim>\<open>TypeError\<close> on anything but a string, before any indicator.
\<close>

fun check_content_for_patterns ::
  "string \<Rightarrow> pyval \<Rightarrow> string \<Rightarrow> string \<Rightarrow> interceptor \<Rightarrow> (py_error + unit) \<times> interceptor" where
  "check_content_for_patterns call_id (PStr content) location timestamp st =
     (Inr (), check_patterns call_id content location timestamp announcement_patterns st)"
| "check_content_for_patterns call_id v location timestamp st = (Inl TypeError, st)"

subsection \<open>The request pipeline\<close>

definition is_str :: "pyval \<Rightarrow> bool" where
  "is_str v = (case v of PStr s \<Rightarrow> True | _ \<Rightarrow> False)"

text \<open>
  The loop \<^verbatim>\<open>for i, message in enumerate(call.messages)\<close>: \<^verbatim>\<open>message.get\<close> raises
  on a message that is no dictionary, and what was recorded before stays recorded.
\<close>

fun check_messages ::
  "string \<Rightarrow> string \<Rightarrow> nat \<Rightarrow> pyval list \<Rightarrow> interceptor \<Rightarrow> (py_error + unit) \<times> interceptor" where
  "check_messages call_id timestamp i [] st = (Inr (), st)"
| "check_messages call_id timestamp i (message # messages) st =
     (case py_get message ''content'' (PStr []) of
        Inl e \<Rightarrow> (Inl e, st)
      | Inr content \<Rightarrow>
          if is_str content then
            (case check_content_for_patterns call_id content
                    (''message_'' @ str_of_nat i) timestamp st of
               (Inl e, st') \<Rightarrow> (Inl e, st')
             | (Inr u, st') \<Rightarrow> check_messages call_id timestamp (Suc i) messages st')
          else check_messages call_id timestamp (Suc i) messages st)"

text \<open>\<^verbatim>\<open>sum(1 for m in call.messages if m.get('role') == 'user')\<close>\<close>

fun user_message_count :: "pyval list \<Rightarrow> py_error + nat" where
  "user_message_count [] = Inr 0"
| "user_message_count (msg # messages) =
     (case py_get msg ''role'' PNone of
        Inl e \<Rightarrow> Inl e
      | Inr role \<Rightarrow>
          (case user_message_count messages of
             Inl e \<Rightarrow> Inl e
           | Inr n \<Rightarrow> Inr ((if role = PStr ''user'' then 1 else 0) + n)))"

definition message_count_indicator :: "APICall \<Rightarrow> nat \<Rightarrow> AnnouncementIndicator" where
  "message_count_indicator call n =
     \<lparr>i_timestamp = c_timestamp call,
      i_call_id = c_call_id call,
      indicator_type = ''unexpected_message_count'',
      i_content = ''Found '' @ str_of_nat n @ '' user messages in single request'',
      i_confidence = ''MEDIUM'',
      i_location = ''message_list'',
      pattern_matched = ''multiple_user_messages''\<rparr>"

definition check_message_count :: "APICall \<Rightarrow> interceptor \<Rightarrow> (py_error + unit) \<times> interceptor" where
  "check_message_count call st =
     (case py_iter (c_messages call) of
        Inl e \<Rightarrow> (Inl e, st)
      | Inr messages \<Rightarrow>
          (case user_message_count messages of
             Inl e \<Rightarrow> (Inl e, st)
           | Inr n \<Rightarrow>
               if n > 1 then
                 (Inr (), st\<lparr>indicators := indicators st @ [message_count_indicator call n]\<rparr>)
               else (Inr (), st)))"

definition check_system_prompt :: "APICall \<Rightarrow> interceptor \<Rightarrow> (py_error + unit) \<times> interceptor" where
  "check_system_prompt call st =
     (if truthy (c_system_prompt call) then
        check_content_for_patterns (c_call_id call) (c_system_prompt call)
          ''system_prompt'' (c_timestamp call) st
      else (Inr (), st))"

definition analyze_request_for_announcements ::
  "APICall \<Rightarrow> interceptor \<Rightarrow> (py_error + unit) \<times> interceptor" where
  "analyze_request_for_announcements call st =
     (case check_system_prompt call st of
        (Inl e, st1) \<Rightarrow> (Inl e, st1)
      | (Inr u, st1) \<Rightarrow>
          (case py_iter (c_messages call) of
             Inl e \<Rightarrow> (Inl e, st1)
           | Inr messages \<Rightarrow>
               (case check_messages (c_call_id call) (c_timestamp call) 0 messages st1 of
                  (Inl e, st2) \<Rightarrow> (Inl e, st2)
                | (Inr u', st2) \<Rightarrow> check_message_count call st2)))"

subsection \<open>The response pipeline\<close>

text \<open>
  What the loop of \<^verbatim>\<open>_analyze_response_for_announcements\<close> scans of the block at index
  \<open>i\<close>, and under which location: the text of a dictionary when it is truthy, a string
  itself, nothing of any other block.
\<close>

definition block_scan :: "nat \<Rightarrow> pyval \<Rightarrow> (pyval \<times> string) option" where
  "block_scan i content_block =
     (case content_block of
        PDict d \<Rightarrow>
          (let text = dict_get d ''text'' (PStr [])
           in if truthy text then Some (text, ''response_block_'' @ str_of_nat i) else None)
      | PStr s \<Rightarrow> Some (PStr s, ''response_content_'' @ str_of_nat i)
      | _ \<Rightarrow> None)"

fun check_blocks ::
  "string \<Rightarrow> string \<Rightarrow> nat \<Rightarrow> pyval list \<Rightarrow> interceptor \<Rightarrow> (py_error + unit) \<times> interceptor" where
  "check_blocks call_id timestamp i [] st = (Inr (), st)"
| "check_blocks call_id timestamp i (content_block # blocks) st =
     (case block_scan i content_block of
        None \<Rightarrow> check_blocks call_id timestamp (Suc i) blocks st
      | Some (text, location) \<Rightarrow>
          (case check_content_for_patterns call_id text location timestamp st of
             (Inl e, st') \<Rightarrow> (Inl e, st')
           | (Inr u, st') \<Rightarrow> check_blocks call_id timestamp (Suc i) blocks st'))"

definition analyze_response_for_announcements ::
  "APICall \<Rightarrow> interceptor \<Rightarrow> (py_error + unit) \<times> interceptor" where
  "analyze_response_for_announcements call st =
     (case py_iter (c_messages call) of
        Inl e \<Rightarrow> (Inl e, st)
      | Inr blocks \<Rightarrow> check_blocks (c_call_id call) (c_timestamp call) 0 blocks st)"

subsection \<open>The two operations\<close>

text \<open>\<^verbatim>\<open>[tool.get('name', 'unknown') for tool in ...]\<close>\<close>

fun tool_names :: "pyval list \<Rightarrow> py_error + pyval list" where
  "tool_names [] = Inr []"
| "tool_names (tool # tools) =
     (case py_get tool ''name'' (PStr ''unknown'') of
        Inl e \<Rightarrow> Inl e
      | Inr n \<Rightarrow> (case tool_names tools of Inl e \<Rightarrow> Inl e | Inr ns \<Rightarrow> Inr (n # ns)))"

text \<open>
  \<^verbatim>\<open>intercept_request\<close>. The clock and the digest are the environment's: \<open>timestamp\<close> is
  what \<^verbatim>\<open>datetime.now().isoformat()\<close> returns and \<open>call_id\<close> what
  \<^verbatim>\<open>generate_call_id\<close> returns (eight hexadecimal digits of the MD5 digest of a second
  clock reading and the serialised parameters). \<^verbatim>\<open>_log_call\<close> writes a file and leaves the
  interceptor as it is; the write is taken to succeed. An exception leaves the interceptor as
  it was when it was raised: the result is the error and that state.
\<close>

definition intercept_request ::
  "string \<Rightarrow> string \<Rightarrow> string \<Rightarrow> pydict \<Rightarrow> interceptor \<Rightarrow> (py_error + string) \<times> interceptor" where
  "intercept_request timestamp call_id endpoint params st =
     (let messages = dict_get params ''messages'' (PList []);
          system_prompt = dict_get params ''system'' (PStr []);
          model = dict_get params ''model'' (PStr ''unknown'')
      in case py_iter (dict_get params ''tools'' (PList [])) of
           Inl e \<Rightarrow> (Inl e, st)
         | Inr ts \<Rightarrow>
             (case tool_names ts of
                Inl e \<Rightarrow> (Inl e, st)
              | Inr tools \<Rightarrow>
                  (let call = \<lparr>c_timestamp = timestamp,
                               c_call_id = call_id,
                               c_type = ''request'',
                               c_endpoint = endpoint,
                               c_model = model,
                               c_messages = messages,
                               c_system_prompt = system_prompt,
                               c_tools = tools,
                               c_metadata = params\<rparr>
                   in case analyze_request_for_announcements call
                             (st\<lparr>calls := calls st @ [call]\<rparr>) of
                        (Inl e, st') \<Rightarrow> (Inl e, st')
                      | (Inr u, st') \<Rightarrow> (Inr call_id, st'))))"

definition intercept_response ::
  "string \<Rightarrow> string \<Rightarrow> pydict \<Rightarrow> interceptor \<Rightarrow> (py_error + unit) \<times> interceptor" where
  "intercept_response timestamp call_id response st =
     (let content = dict_get response ''content'' (PList []);
          messages = (case content of PList xs \<Rightarrow> content | _ \<Rightarrow> PList [content]);
          call = \<lparr>c_timestamp = timestamp,
                  c_call_id = call_id,
                  c_type = ''response'',
                  c_endpoint = ''beta.messages.create'',
                  c_model = dict_get response ''model'' (PStr ''unknown''),
                  c_messages = messages,
                  c_system_prompt = PNone,
                  c_tools = [],
                  c_metadata = response\<rparr>
      in analyze_response_for_announcements call (st\<lparr>calls := calls st @ [call]\<rparr>))"

text \<open>
  A history of the interceptor: operations applied one after the other to a new interceptor,
  a caller going on after an exception with the state the exception left.
\<close>

datatype operation =
    Request string string string pydict
  | Response string string pydict

fun exec :: "operation \<Rightarrow> interceptor \<Rightarrow> interceptor" where
  "exec (Request timestamp call_id endpoint params) st =
     snd (intercept_request timestamp call_id endpoint params st)"
| "exec (Response timestamp call_id response) st =
     snd (intercept_response timestamp call_id response st)"

definition run :: "operation list \<Rightarrow> interceptor" where
  "run ops = foldl (\<lambda>st op. exec op st) init ops"

section \<open>The report\<close>

text \<open>\<^verbatim>\<open>grouped[key].append(x)\<close> on a \<^verbatim>\<open>defaultdict(list)\<close>\<close>

fun group_append :: "string \<Rightarrow> 'a \<Rightarrow> (string \<times> 'a list) list \<Rightarrow> (string \<times> 'a list) list" where
  "group_append k x [] = [(k, [x])]"
| "group_append k x ((k', xs) # kvs) =
     (if k = k' then (k', xs @ [x]) # kvs else (k', xs) # group_append k x kvs)"

text \<open>
  The groups hold the indicators themselves where the source holds \<^verbatim>\<open>asdict(indicator)\<close>,
  the dictionary of the same seven fields.
\<close>

definition group_indicators ::
  "(AnnouncementIndicator \<Rightarrow> string) \<Rightarrow> AnnouncementIndicator list
   \<Rightarrow> (string \<times> AnnouncementIndicator list) list" where
  "group_indicators key inds = foldl (\<lambda>grouped i. group_append (key i) i grouped) [] inds"

definition group_indicators_by_confidence ::
  "interceptor \<Rightarrow> (string \<times> AnnouncementIndicator list) list" where
  "group_indicators_by_confidence st = group_indicators i_confidence (indicators st)"

definition group_indicators_by_type ::
  "interceptor \<Rightarrow> (string \<times> AnnouncementIndicator list) list" where
  "group_indicators_by_type st = group_indicators indicator_type (indicators st)"

record timeline_entry =
  t_timestamp :: string
  t_call_id :: string
  t_type :: string
  t_model :: pyval
  t_endpoint :: string

definition build_timeline :: "interceptor \<Rightarrow> timeline_entry list" where
  "build_timeline st =
     map (\<lambda>call. \<lparr>t_timestamp = c_timestamp call, t_call_id = c_call_id call,
                  t_type = c_type call, t_model = c_model call,
                  t_endpoint = c_endpoint call\<rparr>)
       (drop (length (calls st) - 10) (calls st))"

definition high_conf :: "interceptor \<Rightarrow> nat" where
  "high_conf st = length (filter (\<lambda>i. i_confidence i = ''HIGH'') (indicators st))"

definition no_strong_message :: string where
  "no_strong_message =
     ''No strong announcement indicators detected. Continue monitoring or '' @
     ''adjust detection patterns.''"

definition generate_recommendations :: "interceptor \<Rightarrow> string list" where
  "generate_recommendations st =
     (let recommendations =
        (if high_conf st > 0 then
           [''Found '' @ str_of_nat (high_conf st) @
            '' high-confidence announcement indicators. '' @
            ''Review these calls manually for verification.'']
         else []) @
        (if frequency (call_patterns st) ''banner_format'' > 0 then
           [''Banner-formatted text detected. This is a strong indicator of announcements. '' @
            ''Check if this content originates from user input or system injection.'']
         else []) @
        (if frequency (call_patterns st) ''system_message'' > 0 then
           [''System message markers detected. Verify if these are part of normal '' @
            ''conversation or injected announcements.'']
         else []) @
        (if frequency (call_patterns st) ''date_reference'' > 0 then
           [''Date references found. Announcements often include temporal information. '' @
            ''Check if these align with known announcement dates.'']
         else [])
      in if recommendations = [] then [no_strong_message] else recommendations)"

record summary =
  total_calls :: nat
  total_indicators :: nat
  high_confidence_indicators :: nat
  unique_patterns :: nat

record report =
  r_timestamp :: string
  r_summary :: summary
  indicators_by_confidence :: "(string \<times> AnnouncementIndicator list) list"
  indicators_by_type :: "(string \<times> AnnouncementIndicator list) list"
  pattern_frequency :: "(string \<times> nat) list"
  timeline :: "timeline_entry list"
  recommendations :: "string list"

text \<open>\<^verbatim>\<open>generate_report\<close>, \<open>now\<close> being the clock reading of the report.\<close>

definition generate_report :: "string \<Rightarrow> interceptor \<Rightarrow> report" where
  "generate_report now st =
     \<lparr>r_timestamp = now,
      r_summary = \<lparr>total_calls = length (calls st),
                   total_indicators = length (indicators st),
                   high_confidence_indicators = high_conf st,
                   unique_patterns = length (call_patterns st)\<rparr>,
      indicators_by_confidence = group_indicators_by_confidence st,
      indicators_by_type = group_indicators_by_type st,
      pattern_frequency = call_patterns st,
      timeline = build_timeline st,
      recommendations = generate_recommendations st\<rparr>"

section \<open>Notions used in the statements\<close>

text \<open>The names of the registry rules that match somewhere in a text.\<close>

definition matching_rules :: "string \<Rightarrow> string set" where
  "matching_rules content =
     set (map fst (filter (\<lambda>np. search (snd np) content) announcement_patterns))"

text \<open>The indicators that come from the registry, as opposed to the message-count check.\<close>

definition from_registry :: "AnnouncementIndicator \<Rightarrow> bool" where
  "from_registry i = (indicator_type i \<in> set (map fst announcement_patterns))"

text \<open>What a step from \<open>st\<close> to \<open>st'\<close> appended to the list of indicators.\<close>

definition new_indicators :: "interceptor \<Rightarrow> interceptor \<Rightarrow> AnnouncementIndicator list" where
  "new_indicators st st' = drop (length (indicators st)) (indicators st')"

definition count_all :: "string list \<Rightarrow> (string \<times> nat) list \<Rightarrow> (string \<times> nat) list" where
  "count_all names kvs = fold bump names kvs"

text \<open>
  The shape of every step of a pipeline run for the call \<open>cid\<close>: the ledger of calls is left
  alone, indicators are only appended, each of them bears \<open>cid\<close>, and the frequency table is
  incremented once for each appended indicator that comes from the registry.
\<close>

definition appends :: "string \<Rightarrow> interceptor \<Rightarrow> interceptor \<Rightarrow> bool" where
  "appends cid st st' =
     (calls st' = calls st \<and>
      indicators st' = indicators st @ new_indicators st st' \<and>
      call_patterns st' =
        count_all (map indicator_type (filter from_registry (new_indicators st st')))
          (call_patterns st) \<and>
      list_all (\<lambda>i. i_call_id i = cid \<and> (from_registry i \<longrightarrow> length (i_content i) \<le> 200) \<and>
                     (from_registry i \<or> i_confidence i = ''MEDIUM''))
        (new_indicators st st'))"

text \<open>
  What holds of the interceptor after any history: the frequency table counts exactly the
  indicators that come from the registry, every indicator bears the identifier of a call of
  the ledger, and the stored text of an indicator from the registry has at most 200 characters.
\<close>

definition consistent :: "interceptor \<Rightarrow> bool" where
  "consistent st =
     (call_patterns st =
        count_all (map indicator_type (filter from_registry (indicators st))) [] \<and>
      list_all (\<lambda>i. i_call_id i \<in> c_call_id ` set (calls st) \<and>
                     (from_registry i \<longrightarrow> length (i_content i) \<le> 200) \<and>
                     (from_registry i \<or> i_confidence i = ''MEDIUM''))
        (indicators st))"


text \<open>
  The response of scenario B, as \<^verbatim>\<open>simulate_intercepted_calls\<close> hands it to
  \<^verbatim>\<open>intercept_response\<close>.
\<close>

definition scenario_B_text :: string where
  "scenario_B_text = ''[SYSTEM] Your quota is sufficient. Version 2.1.0 now available.''"

definition scenario_B_response :: pydict where
  "scenario_B_response =
     [(''model'', PStr ''claude-haiku-3-5-20241022''),
      (''content'', PList [PDict [(''type'', PStr ''text''), (''text'', PStr scenario_B_text)]])]"


text \<open>
  Scenario C: the first request and response of \<^verbatim>\<open>simulate_intercepted_calls\<close>, plain
  conversation.
\<close>

definition plain_request :: pydict where
  "plain_request =
     [(''model'', PStr ''claude-sonnet-4-20250514''),
      (''messages'', PList [PDict [(''role'', PStr ''user''),
                                   (''content'', PStr ''Hello, can you help me with a task?'')]]),
      (''system'', PStr ''You are a helpful coding assistant.''),
      (''tools'', PList [PDict [(''name'', PStr ''Read'')], PDict [(''name'', PStr ''Write'')]])]"

definition plain_response :: pydict where
  "plain_response =
     [(''model'', PStr ''claude-sonnet-4-20250514''),
      (''content'', PList [PDict [(''type'', PStr ''text''),
          (''text'', PStr ''Of course! I'd be happy to help you with your task.'')]])]"

definition scenario_C :: "operation list" where
  "scenario_C =
     [Request ''t1'' ''c1'' ''beta.messages.create'' plain_request,
      Response ''t2'' ''c1'' plain_response]"

text \<open>A request with two messages of role \<open>user\<close> and nothing else.\<close>

definition two_user_request :: pydict where
  "two_user_request =
     [(''messages'', PList [PDict [(''role'', PStr ''user''), (''content'', PStr ''first'')],
                            PDict [(''role'', PStr ''user''), (''content'', PStr ''second'')]])]"

text \<open>Scenario C followed by the response of scenario B.\<close>

definition scenario_BC :: "operation list" where
  "scenario_BC = scenario_C @ [Response ''t3'' ''c3'' scenario_B_response]"

definition is_dict :: "pyval \<Rightarrow> bool" where
  "is_dict v = (case v of PDict d \<Rightarrow> True | _ \<Rightarrow> False)"

text \<open>
  A parameter mapping whose fields, where present, have the types \<^verbatim>\<open>APICall\<close> declares:
  \<^verbatim>\<open>system_prompt: Optional[str]\<close>, \<^verbatim>\<open>messages: List[Dict]\<close>, and tools that are
  dictionaries (\<^verbatim>\<open>tool.get\<close>). Every field may be absent.
\<close>

definition well_typed_request :: "pydict \<Rightarrow> bool" where
  "well_typed_request params =
     ((case map_of params ''system'' of
         None \<Rightarrow> True
       | Some v \<Rightarrow> is_str v \<or> v = PNone) \<and>
      (case map_of params ''messages'' of
         None \<Rightarrow> True
       | Some v \<Rightarrow> (case v of PList ms \<Rightarrow> list_all is_dict ms | _ \<Rightarrow> False)) \<and>
      (case map_of params ''tools'' of
         None \<Rightarrow> True
       | Some v \<Rightarrow> (case v of PList ts \<Rightarrow> list_all is_dict ts | _ \<Rightarrow> False)))"

text \<open>The messages of a request whose role is \<open>user\<close>.\<close>

definition is_user_message :: "pyval \<Rightarrow> bool" where
  "is_user_message msg =
     (case msg of PDict d \<Rightarrow> map_of d ''role'' = Some (PStr ''user'') | _ \<Rightarrow> False)"

definition user_messages :: "pydict \<Rightarrow> pyval list" where
  "user_messages params =
     (case dict_get params ''messages'' (PList []) of
        PList ms \<Rightarrow> filter is_user_message ms
      | _ \<Rightarrow> [])"

text \<open>What \<^verbatim>\<open>tool.get('name', 'unknown')\<close> is for a tool that is a dictionary.\<close>

definition tool_name :: "pyval \<Rightarrow> pyval" where
  "tool_name tool = (case tool of PDict d \<Rightarrow> dict_get d ''name'' (PStr ''unknown'') | _ \<Rightarrow> PNone)"

text \<open>A step that only appends indicators, each with the property \<open>P\<close>.\<close>

definition adds :: "(AnnouncementIndicator \<Rightarrow> bool) \<Rightarrow> interceptor \<Rightarrow> interceptor \<Rightarrow> bool" where
  "adds P st st' =
     (indicators st' = indicators st @ new_indicators st st' \<and>
      list_all P (new_indicators st st'))"

text \<open>A request with no field but two tools, the first without a name.\<close>

definition unnamed_tool_request :: pydict where
  "unnamed_tool_request = [(''tools'', PList [PDict [], PDict [(''name'', PStr ''Read'')]])]"

text \<open>The least number of characters a match of an expression consumes.\<close>

fun min_len :: "regex \<Rightarrow> nat"
  and min_len_cat :: "regex list \<Rightarrow> nat"
  and min_len_alt :: "regex list \<Rightarrow> nat" where
  "min_len (Atom a) = 1"
| "min_len (Lit t) = length t"
| "min_len (Rep a lo hi greedy) = lo"
| "min_len (Cat rs) = min_len_cat rs"
| "min_len (Alt rs) = min_len_alt rs"
| "min_len (Group n r) = min_len r"
| "min_len (Backref n) = 0"
| "min_len WordB = 0"
| "min_len_cat [] = 0"
| "min_len_cat (r # rs) = min_len r + min_len_cat rs"
| "min_len_alt [] = 0"
| "min_len_alt [r] = min_len r"
| "min_len_alt (r # r' # rs) = min (min_len r) (min_len_alt (r' # rs))"

text \<open>The calls a step from \<open>st\<close> to \<open>st'\<close> appended to the ledger.\<close>

definition new_calls :: "interceptor \<Rightarrow> interceptor \<Rightarrow> APICall list" where
  "new_calls st st' = drop (length (calls st)) (calls st')"

text \<open>
  A request whose system prompt is a list of text blocks, as the messages interface accepts
  it, with two messages of role \<open>user\<close>.
\<close>

definition list_system_request :: pydict where
  "list_system_request =
     [(''system'', PList [PDict [(''type'', PStr ''text''),
                                 (''text'', PStr ''You are a helpful coding assistant.'')]]),
      (''messages'', PList [PDict [(''role'', PStr ''user''), (''content'', PStr ''first'')],
                            PDict [(''role'', PStr ''user''), (''content'', PStr ''second'')]])]"

declare findall_from.simps [simp del]
declare str_of_nat.simps [simp del]

section \<open>The patterns of the registry consume text\<close>

lemma reps_consumes:
  "s' \<in> set (drop lo (reps ok hi s)) \<Longrightarrow> length (fst (snd s')) + lo \<le> length (fst (snd s))"
proof (induction ok hi s arbitrary: lo rule: reps.induct)
  case (1 ok hi p g)
  then show ?case by (cases lo) auto
next
  case (2 ok hi p c cs g)
  show ?case
  proof (cases lo)
    case 0
    then consider "s' = (p, c # cs, g)"
      | "ok c \<and> hi \<noteq> Some 0"
        "s' \<in> set (drop 0 (reps ok (map_option (\<lambda>h. h - 1) hi) (Some c, cs, g)))"
      using "2.prems" by (auto split: if_splits)
    then show ?thesis
    proof cases
      case 1
      then show ?thesis using 0 by simp
    next
      case 2
      then have "length (fst (snd s')) + 0 \<le> length (fst (snd (Some c, cs, g)))"
        by (rule "2.IH")
      then show ?thesis using 0 by simp
    qed
  next
    case (Suc k)
    then show ?thesis using 2 by (fastforce split: if_splits)
  qed
qed

lemma match_text_consumes:
  "s' \<in> set (match_text f t s) \<Longrightarrow> length (fst (snd s')) + length t \<le> length (fst (snd s))"
  by (induction f t s rule: match_text.induct) (auto split: if_splits)

lemma m_consumes:
  "s' \<in> set (m f r s) \<Longrightarrow> length (fst (snd s')) + min_len r \<le> length (fst (snd s))"
  "s' \<in> set (m_cat f rs s) \<Longrightarrow> length (fst (snd s')) + min_len_cat rs \<le> length (fst (snd s))"
  "s' \<in> set (m_alt f rs s) \<Longrightarrow> length (fst (snd s')) + min_len_alt rs \<le> length (fst (snd s))"
proof (induction f r s and f rs s and f rs s arbitrary: s' and s' and s'
    rule: m_m_cat_m_alt.induct)
  case (1 f a p cs g)
  then show ?case by (auto split: list.splits if_splits)
next
  case (2 f t s)
  then show ?case using match_text_consumes by simp
next
  case (3 f a lo hi greedy s)
  then show ?case using reps_consumes [of s' lo "atom_ok f a" hi s]
    by (auto simp: Let_def split: if_splits)
next
  case (4 f rs s)
  then show ?case by simp
next
  case (5 f rs s)
  then show ?case by simp
next
  case (6 f n r p cs g)
  then show ?case by fastforce
next
  case (7 f n p cs g)
  then show ?case by (auto split: option.splits dest: match_text_consumes)
next
  case (8 f p cs g)
  then show ?case by (auto split: if_splits)
next
  case (9 f s)
  then show ?case by simp
next
  case (10 f r rs s)
  from "10.prems" obtain s1 where s1: "s1 \<in> set (m f r s)" "s' \<in> set (m_cat f rs s1)"
    by auto
  have "length (fst (snd s1)) + min_len r \<le> length (fst (snd s))"
    using "10.IH"(1) s1(1) by blast
  moreover have "length (fst (snd s')) + min_len_cat rs \<le> length (fst (snd s1))"
    using "10.IH"(2) s1 by blast
  ultimately show ?case by simp
next
  case (11 f s)
  then show ?case by simp
next
  case (12 f r rs s)
  from "12.prems" consider "s' \<in> set (m f r s)" | "s' \<in> set (m_alt f rs s)" by auto
  then show ?case
  proof cases
    case 1
    then have "length (fst (snd s')) + min_len r \<le> length (fst (snd s))"
      using "12.IH"(1) by blast
    then show ?thesis by (cases rs) auto
  next
    case 2
    then have "length (fst (snd s')) + min_len_alt rs \<le> length (fst (snd s))"
      using "12.IH"(2) by blast
    then show ?thesis using 2 by (cases rs) auto
  qed
qed

lemma first_match_consumes:
  "first_match pat p cs = Some (start, s') \<Longrightarrow>
   length (fst (snd s')) + min_len (expr pat) \<le> length start \<and> length start \<le> length cs"
proof (induction pat p cs rule: first_match.induct)
  case (1 pat p)
  then show ?case
    using m_consumes(1) [of s' "pflags pat" "expr pat" "(p, [], [])"]
    by (auto split: list.splits)
next
  case (2 pat p c cs)
  show ?case
  proof (cases "m (pflags pat) (expr pat) (p, c # cs, [])")
    case Nil
    then show ?thesis using 2 by simp
  next
    case (Cons s ss)
    then have "s' = s" "start = c # cs" using "2.prems" by simp_all
    then show ?thesis
      using m_consumes(1) [of s' "pflags pat" "expr pat" "(p, c # cs, [])"] Cons by simp
  qed
qed

lemma registry_consumes:
  "list_all (\<lambda>np. 0 < min_len (expr (snd np))) announcement_patterns"
  by (simp add: announcement_patterns_def banner_format_def announcement_keyword_def
      date_reference_def system_message_def urgent_marker_def version_info_def)

lemma findall_from_consuming:
  assumes "0 < min_len (expr pat)"
  shows "findall_from pat p cs =
     (case first_match pat p cs of
        None \<Rightarrow> []
      | Some (start, (p', rest, g)) \<Rightarrow>
          found_of pat start (p', rest, g) # findall_from pat p' rest)"
proof (cases "first_match pat p cs")
  case None
  then show ?thesis by (simp add: findall_from.simps [of pat p cs])
next
  case (Some r)
  obtain start p' rest g where r: "r = (start, (p', rest, g))" by (cases r) auto
  have "length rest < length cs"
    using first_match_consumes [of pat p cs start "(p', rest, g)"] Some r assms by simp
  then show ?thesis using Some r by (simp add: findall_from.simps [of pat p cs])
qed

text \<open>
  So on the patterns of the registry \<open>findall_from\<close> is the scan of \<^verbatim>\<open>findall\<close> with no
  condition: the next search starts where the match ended.
\<close>

section \<open>The confidence scorer: properties\<close>

lemma distinct_rule_names: "distinct (map fst announcement_patterns)"
  by (simp add: announcement_patterns_def)

text \<open>
  The generator expression of \<^verbatim>\<open>_determine_confidence\<close> counts the patterns that match; the
  names of the registry being distinct, that is the number of distinct rules that match.
\<close>

lemma matching_patterns_card: "matching_patterns content = card (matching_rules content)"
proof -
  have d: "distinct (map fst (filter (\<lambda>np. search (snd np) content) announcement_patterns))"
    using distinct_rule_names by (rule distinct_map_filter)
  have "card (matching_rules content) =
        length (filter (\<lambda>np. search (snd np) content) announcement_patterns)"
    unfolding matching_rules_def using distinct_card [OF d] by simp
  also have "\<dots> = matching_patterns content"
    unfolding matching_patterns_def by (simp add: filter_map comp_def)
  finally show ?thesis by simp
qed

text \<open>The scanner records a rule exactly when the scorer counts it.\<close>

lemma findall_nonempty_iff_search: "(findall pat content \<noteq> []) = search pat content"
  by (simp add: findall_def search_def findall_from.simps [of pat None content]
      split: option.splits prod.splits)

lemma matching_rules_scenario_B:
  "matching_rules ''[SYSTEM] Your quota is sufficient. Version 2.1.0 now available.'' =
     {''system_message'', ''version_info''}"
  by code_simp

lemma matching_rules_system_tag: "matching_rules ''[system]'' = {''system_message''}"
  by code_simp

lemma matching_rules_urgent: "matching_rules ''urgent'' = {''urgent_marker''}"
  by code_simp

text \<open>
  Claim C1. For every content and rule identifier the scorer returns HIGH when the rule is
  \<open>banner_format\<close> or \<open>system_message\<close>; otherwise HIGH when at least three distinct
  registry rules match somewhere in the content, MEDIUM when exactly two match and LOW when
  at most one matches.
\<close>

theorem scorer_policy:
  "(rule_id = ''banner_format'' \<or> rule_id = ''system_message'' \<longrightarrow>
      determine_confidence rule_id matches content = ''HIGH'') \<and>
   (rule_id \<noteq> ''banner_format'' \<and> rule_id \<noteq> ''system_message'' \<longrightarrow>
      (3 \<le> card (matching_rules content) \<longrightarrow>
         determine_confidence rule_id matches content = ''HIGH'') \<and>
      (card (matching_rules content) = 2 \<longrightarrow>
         determine_confidence rule_id matches content = ''MEDIUM'') \<and>
      (card (matching_rules content) \<le> 1 \<longrightarrow>
         determine_confidence rule_id matches content = ''LOW''))"
  by (simp add: determine_confidence_def matching_patterns_card)

theorem scorer_policy_witness:
  "card (matching_rules ''[SYSTEM] Your quota is sufficient. Version 2.1.0 now available.'') = 2 \<and>
   determine_confidence ''version_info'' [FStr ''Version 2.1'']
     ''[SYSTEM] Your quota is sufficient. Version 2.1.0 now available.'' = ''MEDIUM''"
proof -
  have c: "card (matching_rules
             ''[SYSTEM] Your quota is sufficient. Version 2.1.0 now available.'') = 2"
    by (simp add: matching_rules_scenario_B)
  show ?thesis
    using c scorer_policy [of "''version_info''" "[FStr ''Version 2.1'']"
        "''[SYSTEM] Your quota is sufficient. Version 2.1.0 now available.''"]
    by simp
qed

text \<open>
  Claim C2, as stated: on a content that exactly one registry rule matches, scoring that rule
  yields LOW. It fails for the two rules the scorer answers before counting: on \<open>[system]\<close>
  only \<open>system_message\<close> matches, and its score is HIGH.
\<close>

theorem single_rule_low_counterexample:
  "matching_rules ''[system]'' = {''system_message''} \<and>
   determine_confidence ''system_message'' (findall system_message ''[system]'') ''[system]''
     \<noteq> ''LOW''"
  by (simp add: matching_rules_system_tag determine_confidence_def)

text \<open>
  Claim C2, amended: on a content that exactly one registry rule matches, scoring that rule
  yields LOW unless the rule is \<open>banner_format\<close> or \<open>system_message\<close>, whose score is
  HIGH.
\<close>

theorem single_rule_score:
  "matching_rules content = {rule_id} \<Longrightarrow>
   determine_confidence rule_id matches content =
     (if rule_id = ''banner_format'' \<or> rule_id = ''system_message'' then ''HIGH'' else ''LOW'')"
  by (simp add: determine_confidence_def matching_patterns_card)

theorem single_rule_score_witness:
  "matching_rules ''urgent'' = {''urgent_marker''} \<and>
   determine_confidence ''urgent_marker'' (findall urgent_marker ''urgent'') ''urgent'' = ''LOW''"
  using single_rule_score [of "''urgent''" "''urgent_marker''" "findall urgent_marker ''urgent''"]
  by (simp add: matching_rules_urgent)

section \<open>The pipelines only append\<close>

lemma appendsI:
  assumes "calls st' = calls st" and "indicators st' = indicators st @ new"
    and "call_patterns st' = count_all (map indicator_type (filter from_registry new)) (call_patterns st)"
    and "list_all (\<lambda>i. i_call_id i = cid \<and> (from_registry i \<longrightarrow> length (i_content i) \<le> 200) \<and>
                     (from_registry i \<or> i_confidence i = ''MEDIUM'')) new"
  shows "appends cid st st'"
  using assms by (simp add: appends_def new_indicators_def)

lemma appends_refl: "appends cid st st"
  by (simp add: appends_def new_indicators_def count_all_def)

lemma appends_trans:
  assumes "appends cid a b" and "appends cid b c"
  shows "appends cid a c"
proof -
  define n1 where "n1 = new_indicators a b"
  define n2 where "n2 = new_indicators b c"
  have b: "indicators b = indicators a @ n1" using assms(1) by (simp add: appends_def n1_def)
  have c: "indicators c = indicators b @ n2" using assms(2) by (simp add: appends_def n2_def)
  have n: "indicators c = indicators a @ (n1 @ n2)" using b c by simp
  show ?thesis
  proof (rule appendsI [where new = "n1 @ n2"])
    show "calls c = calls a" using assms by (simp add: appends_def)
    show "indicators c = indicators a @ n1 @ n2" by (rule n)
    show "call_patterns c =
        count_all (map indicator_type (filter from_registry (n1 @ n2))) (call_patterns a)"
      using assms by (simp add: appends_def n1_def n2_def count_all_def)
    show "list_all (\<lambda>i. i_call_id i = cid \<and> (from_registry i \<longrightarrow> length (i_content i) \<le> 200) \<and>
                     (from_registry i \<or> i_confidence i = ''MEDIUM''))
        (n1 @ n2)"
      using assms by (simp add: appends_def n1_def n2_def)
  qed
qed

lemma appends_one_registry:
  assumes "name \<in> set (map fst announcement_patterns)"
    and "indicator_type ind = name" and "i_call_id ind = cid" and "length (i_content ind) \<le> 200"
  shows "appends cid st (st\<lparr>indicators := indicators st @ [ind],
                            call_patterns := bump name (call_patterns st)\<rparr>)"
  using assms by (intro appendsI [where new = "[ind]"]) (simp_all add: from_registry_def count_all_def)

lemma check_patterns_appends:
  "set pats \<subseteq> set announcement_patterns \<Longrightarrow>
   appends call_id st (check_patterns call_id content location timestamp pats st)"
proof (induction pats arbitrary: st)
  case Nil
  then show ?case by (simp add: appends_refl)
next
  case (Cons np pats)
  obtain pattern_name pat where np: "np = (pattern_name, pat)" by (cases np)
  have mem: "pattern_name \<in> set (map fst announcement_patterns)"
    using Cons.prems np by force
  have sub: "set pats \<subseteq> set announcement_patterns" using Cons.prems by simp
  show ?case
  proof (cases "findall pat content = []")
    case True
    then show ?thesis using Cons.IH [OF sub] np by simp
  next
    case False
    let ?ind = "\<lparr>i_timestamp = timestamp, i_call_id = call_id, indicator_type = pattern_name,
                  i_content = take 200 (str_matches (findall pat content)),
                  i_confidence = determine_confidence pattern_name (findall pat content) content,
                  i_location = location, pattern_matched = pattern_name\<rparr>"
    let ?st1 = "st\<lparr>indicators := indicators st @ [?ind],
                   call_patterns := bump pattern_name (call_patterns st)\<rparr>"
    have one: "appends call_id st ?st1"
      by (rule appends_one_registry [OF mem]) simp_all
    have rest: "appends call_id ?st1 (check_patterns call_id content location timestamp pats ?st1)"
      by (rule Cons.IH [OF sub])
    have "check_patterns call_id content location timestamp (np # pats) st =
          check_patterns call_id content location timestamp pats ?st1"
      using False np by (simp add: Let_def)
    then show ?thesis using appends_trans [OF one rest] by simp
  qed
qed

lemma check_content_appends:
  "appends call_id st (snd (check_content_for_patterns call_id v location timestamp st))"
  by (cases v) (simp_all add: appends_refl check_patterns_appends)

lemma check_messages_appends:
  "appends call_id st (snd (check_messages call_id timestamp i messages st))"
proof (induction messages arbitrary: i st)
  case Nil
  then show ?case by (simp add: appends_refl)
next
  case (Cons message messages)
  show ?case
  proof (cases "py_get message ''content'' (PStr [])")
    case (Inl e)
    then show ?thesis by (simp add: appends_refl)
  next
    case (Inr content)
    show ?thesis
    proof (cases "is_str content")
      case False
      then show ?thesis using Inr Cons.IH by simp
    next
      case True
      obtain r st' where c: "check_content_for_patterns call_id content
          (''message_'' @ str_of_nat i) timestamp st = (r, st')"
        by (cases "check_content_for_patterns call_id content
          (''message_'' @ str_of_nat i) timestamp st")
      have a1: "appends call_id st st'"
        using check_content_appends [of call_id st content "''message_'' @ str_of_nat i" timestamp] c
        by simp
      show ?thesis
      proof (cases r)
        case (Inl e)
        then show ?thesis using Inr True c a1 by simp
      next
        case (Inr u)
        have "appends call_id st' (snd (check_messages call_id timestamp (Suc i) messages st'))"
          by (rule Cons.IH)
        then have "appends call_id st (snd (check_messages call_id timestamp (Suc i) messages st'))"
          using a1 appends_trans by blast
        then show ?thesis using \<open>py_get message ''content'' (PStr []) = Inr content\<close> True c Inr
          by simp
      qed
    qed
  qed
qed

lemma not_from_registry_message_count:
  "\<not> from_registry (message_count_indicator call n)"
  by (simp add: from_registry_def message_count_indicator_def announcement_patterns_def)

lemma check_message_count_appends:
  "appends (c_call_id call) st (snd (check_message_count call st))"
proof -
  have one: "appends (c_call_id call) st
      (st\<lparr>indicators := indicators st @ [message_count_indicator call n]\<rparr>)" for n
    by (rule appendsI [where new = "[message_count_indicator call n]"])
       (simp_all add: not_from_registry_message_count count_all_def,
        simp add: message_count_indicator_def)
  show ?thesis
    by (simp add: check_message_count_def appends_refl one split: sum.splits)
qed

lemma check_system_prompt_appends:
  "appends (c_call_id call) st (snd (check_system_prompt call st))"
  by (simp add: check_system_prompt_def appends_refl check_content_appends)

lemma analyze_request_appends:
  "appends (c_call_id call) st (snd (analyze_request_for_announcements call st))"
proof -
  obtain r1 st1 where s1: "check_system_prompt call st = (r1, st1)"
    by (cases "check_system_prompt call st")
  have a1: "appends (c_call_id call) st st1"
    using check_system_prompt_appends [of call st] s1 by simp
  show ?thesis
  proof (cases r1)
    case (Inl e)
    then show ?thesis using s1 a1 by (simp add: analyze_request_for_announcements_def)
  next
    case (Inr u)
    note r1 = this
    show ?thesis
    proof (cases "py_iter (c_messages call)")
      case (Inl e)
      then show ?thesis using s1 r1 a1 by (simp add: analyze_request_for_announcements_def)
    next
      case (Inr messages)
      obtain r2 st2 where s2:
        "check_messages (c_call_id call) (c_timestamp call) 0 messages st1 = (r2, st2)"
        by (cases "check_messages (c_call_id call) (c_timestamp call) 0 messages st1")
      have a2: "appends (c_call_id call) st st2"
        using check_messages_appends [of "c_call_id call" st1 "c_timestamp call" 0 messages] s2
          appends_trans [OF a1] by simp
      show ?thesis
      proof (cases r2)
        case (Inl e)
        then show ?thesis using s1 r1 Inr s2 a2
          by (simp add: analyze_request_for_announcements_def)
      next
        case (Inr u')
        have "appends (c_call_id call) st (snd (check_message_count call st2))"
          using appends_trans [OF a2 check_message_count_appends] .
        then show ?thesis using s1 r1 \<open>py_iter (c_messages call) = Inr messages\<close> s2 Inr
          by (simp add: analyze_request_for_announcements_def)
      qed
    qed
  qed
qed

lemma check_blocks_appends:
  "appends call_id st (snd (check_blocks call_id timestamp i blocks st))"
proof (induction blocks arbitrary: i st)
  case Nil
  then show ?case by (simp add: appends_refl)
next
  case (Cons content_block blocks)
  show ?case
  proof (cases "block_scan i content_block")
    case None
    then show ?thesis using Cons.IH by simp
  next
    case (Some tl)
    obtain tx location where tl: "tl = (tx, location)" by (cases tl)
    obtain r st' where c:
      "check_content_for_patterns call_id tx location timestamp st = (r, st')"
      by (cases "check_content_for_patterns call_id tx location timestamp st")
    have a1: "appends call_id st st'"
      using check_content_appends [of call_id st tx location timestamp] c by simp
    show ?thesis
    proof (cases r)
      case (Inl e)
      then show ?thesis using Some tl c a1 by simp
    next
      case (Inr u)
      have "appends call_id st (snd (check_blocks call_id timestamp (Suc i) blocks st'))"
        using appends_trans [OF a1 Cons.IH] .
      then show ?thesis using Some tl c Inr by simp
    qed
  qed
qed

lemma analyze_response_appends:
  "appends (c_call_id call) st (snd (analyze_response_for_announcements call st))"
  by (simp add: analyze_response_for_announcements_def appends_refl check_blocks_appends
      split: sum.splits)

section \<open>What holds after any history\<close>

lemma sum_bump: "sum_list (map snd (bump k kvs)) = Suc (sum_list (map snd kvs))"
  by (induction k kvs rule: bump.induct) auto

lemma keys_bump: "set (map fst (bump k kvs)) = insert k (set (map fst kvs))"
  by (induction k kvs rule: bump.induct) auto

lemma distinct_bump: "distinct (map fst kvs) \<Longrightarrow> distinct (map fst (bump k kvs))"
proof (induction k kvs rule: bump.induct)
  case (1 k)
  then show ?case by simp
next
  case (2 k k' n kvs)
  have "k' \<notin> set (map fst (bump k kvs))" if "k \<noteq> k'"
    using that "2.prems" by (simp add: keys_bump del: set_map)
  then show ?case using 2 by auto
qed

lemma frequency_bump:
  "frequency (bump k kvs) k' = (if k' = k then Suc (frequency kvs k') else frequency kvs k')"
  by (induction k kvs rule: bump.induct) (auto simp: frequency_def)

lemma sum_count_all:
  "sum_list (map snd (count_all names kvs)) = length names + sum_list (map snd kvs)"
  unfolding count_all_def by (induction names arbitrary: kvs) (simp_all add: sum_bump)

lemma keys_count_all:
  "set (map fst (count_all names kvs)) = set names \<union> set (map fst kvs)"
  unfolding count_all_def
  by (induction names arbitrary: kvs) (simp_all add: keys_bump del: set_map)

lemma distinct_count_all:
  "distinct (map fst kvs) \<Longrightarrow> distinct (map fst (count_all names kvs))"
  unfolding count_all_def by (induction names arbitrary: kvs) (simp_all add: distinct_bump)

lemma frequency_count_all:
  "frequency (count_all names kvs) k = count_list names k + frequency kvs k"
  unfolding count_all_def by (induction names arbitrary: kvs) (simp_all add: frequency_bump)

lemma length_count_all: "length (count_all names []) = card (set names)"
proof -
  have d: "distinct (map fst (count_all names []))" by (rule distinct_count_all) simp
  have "length (count_all names []) = length (map fst (count_all names []))" by simp
  also have "\<dots> = card (set (map fst (count_all names [])))" using distinct_card [OF d] by simp
  also have "\<dots> = card (set names)" by (simp add: keys_count_all del: set_map)
  finally show ?thesis .
qed

lemma count_all_append: "count_all (xs @ ys) kvs = count_all ys (count_all xs kvs)"
  by (simp add: count_all_def)

lemma consistent_init: "consistent init"
  by (simp add: consistent_def init_def count_all_def)

lemma consistent_add_call:
  assumes "consistent st"
  shows "consistent (st\<lparr>calls := calls st @ [c]\<rparr>)"
  using assms by (auto simp: consistent_def list_all_iff)

lemma consistent_appends:
  assumes "consistent st" and "cid \<in> c_call_id ` set (calls st)" and "appends cid st st'"
  shows "consistent st'"
proof -
  define new where "new = new_indicators st st'"
  have i: "indicators st' = indicators st @ new"
    and c: "calls st' = calls st"
    and p: "call_patterns st' =
        count_all (map indicator_type (filter from_registry new)) (call_patterns st)"
    and l: "list_all (\<lambda>i. i_call_id i = cid \<and> (from_registry i \<longrightarrow> length (i_content i) \<le> 200) \<and>
                     (from_registry i \<or> i_confidence i = ''MEDIUM'')) new"
    using assms(3) by (simp_all add: appends_def new_def)
  have "call_patterns st' =
        count_all (map indicator_type (filter from_registry (indicators st'))) []"
    using assms(1) p i by (simp add: consistent_def count_all_append)
  moreover have "list_all (\<lambda>i. i_call_id i \<in> c_call_id ` set (calls st') \<and>
                     (from_registry i \<longrightarrow> length (i_content i) \<le> 200) \<and>
                     (from_registry i \<or> i_confidence i = ''MEDIUM'')) (indicators st')"
    using assms(1,2) l i c by (auto simp: consistent_def list_all_iff)
  ultimately show ?thesis by (simp add: consistent_def)
qed

lemma intercept_request_cases:
  "snd (intercept_request timestamp call_id endpoint params st) = st \<or>
   (\<exists>c. c_call_id c = call_id \<and>
        appends call_id (st\<lparr>calls := calls st @ [c]\<rparr>)
          (snd (intercept_request timestamp call_id endpoint params st)))"
proof (cases "py_iter (dict_get params ''tools'' (PList []))")
  case (Inl e)
  then show ?thesis by (simp add: intercept_request_def)
next
  case (Inr ts)
  show ?thesis
  proof (cases "tool_names ts")
    case (Inl e)
    then show ?thesis using Inr by (simp add: intercept_request_def)
  next
    case (Inr tools)
    let ?c = "\<lparr>c_timestamp = timestamp, c_call_id = call_id, c_type = ''request'',
               c_endpoint = endpoint, c_model = dict_get params ''model'' (PStr ''unknown''),
               c_messages = dict_get params ''messages'' (PList []),
               c_system_prompt = dict_get params ''system'' (PStr []),
               c_tools = tools, c_metadata = params\<rparr>"
    have e: "snd (intercept_request timestamp call_id endpoint params st) =
             snd (analyze_request_for_announcements ?c (st\<lparr>calls := calls st @ [?c]\<rparr>))"
      using \<open>py_iter (dict_get params ''tools'' (PList [])) = Inr ts\<close> Inr
      by (simp add: intercept_request_def Let_def split: prod.splits sum.splits)
    have "appends call_id (st\<lparr>calls := calls st @ [?c]\<rparr>)
            (snd (analyze_request_for_announcements ?c (st\<lparr>calls := calls st @ [?c]\<rparr>)))"
      using analyze_request_appends [of ?c "st\<lparr>calls := calls st @ [?c]\<rparr>"] by simp
    then show ?thesis using e by (intro disjI2 exI [of _ ?c]) simp
  qed
qed

lemma intercept_response_cases:
  "\<exists>c. c_call_id c = call_id \<and>
        appends call_id (st\<lparr>calls := calls st @ [c]\<rparr>)
          (snd (intercept_response timestamp call_id response st))"
proof -
  let ?content = "dict_get response ''content'' (PList [])"
  let ?c = "\<lparr>c_timestamp = timestamp, c_call_id = call_id, c_type = ''response'',
             c_endpoint = ''beta.messages.create'',
             c_model = dict_get response ''model'' (PStr ''unknown''),
             c_messages = (case ?content of PList xs \<Rightarrow> ?content | _ \<Rightarrow> PList [?content]),
             c_system_prompt = PNone, c_tools = [], c_metadata = response\<rparr>"
  have e: "intercept_response timestamp call_id response st =
           analyze_response_for_announcements ?c (st\<lparr>calls := calls st @ [?c]\<rparr>)"
    by (simp add: intercept_response_def Let_def)
  have "appends call_id (st\<lparr>calls := calls st @ [?c]\<rparr>)
          (snd (analyze_response_for_announcements ?c (st\<lparr>calls := calls st @ [?c]\<rparr>)))"
    using analyze_response_appends [of ?c "st\<lparr>calls := calls st @ [?c]\<rparr>"] by simp
  then show ?thesis using e by (intro exI [of _ ?c]) simp
qed

lemma exec_cases:
  "exec op st = st \<or>
   (\<exists>c. appends (c_call_id c) (st\<lparr>calls := calls st @ [c]\<rparr>) (exec op st))"
proof (cases op)
  case (Request timestamp call_id endpoint params)
  then show ?thesis
    using intercept_request_cases [of timestamp call_id endpoint params st] by auto
next
  case (Response timestamp call_id response)
  then show ?thesis
    using intercept_response_cases [of call_id st timestamp response] by auto
qed

lemma consistent_exec:
  assumes "consistent st"
  shows "consistent (exec op st)"
proof -
  consider "exec op st = st"
    | c where "appends (c_call_id c) (st\<lparr>calls := calls st @ [c]\<rparr>) (exec op st)"
    using exec_cases [of op st] by blast
  then show ?thesis
  proof cases
    case 1
    then show ?thesis using assms by simp
  next
    case 2
    have "consistent (st\<lparr>calls := calls st @ [c]\<rparr>)" by (rule consistent_add_call [OF assms])
    moreover have "c_call_id c \<in> c_call_id ` set (calls (st\<lparr>calls := calls st @ [c]\<rparr>))"
      by simp
    ultimately show ?thesis using 2 by (rule consistent_appends)
  qed
qed

lemma run_snoc: "run (ops @ [op]) = exec op (run ops)"
  by (simp add: run_def)

lemma consistent_run: "consistent (run ops)"
proof (induction ops rule: rev_induct)
  case Nil
  then show ?case by (simp add: run_def consistent_init)
next
  case (snoc op ops)
  then show ?case by (simp add: run_snoc consistent_exec)
qed

section \<open>Scenario B\<close>

lemma findall_scenario_B:
  "map (\<lambda>np. findall (snd np) scenario_B_text) announcement_patterns =
     [Nil, Nil, Nil, [FStr ''[SYSTEM]''], Nil, [FStr ''Version 2.1'']]"
  by code_simp

lemma str_matches_B:
  "str_matches [FStr ''[SYSTEM]''] = ''['[SYSTEM]']''"
  "str_matches [FStr ''Version 2.1''] = ''['Version 2.1']''"
  by code_simp+

lemma str_of_nat_0: "str_of_nat 0 = ''0''"
  by code_simp

lemma matching_rules_B: "matching_rules scenario_B_text = {''system_message'', ''version_info''}"
  by code_simp

lemma check_patterns_scenario_B:
  "check_patterns call_id scenario_B_text location timestamp announcement_patterns st =
     st\<lparr>indicators := indicators st @
           [\<lparr>i_timestamp = timestamp, i_call_id = call_id, indicator_type = ''system_message'',
             i_content = ''['[SYSTEM]']'',
             i_confidence = ''HIGH'', i_location = location,
             pattern_matched = ''system_message''\<rparr>,
            \<lparr>i_timestamp = timestamp, i_call_id = call_id, indicator_type = ''version_info'',
             i_content = ''['Version 2.1']'',
             i_confidence = ''MEDIUM'', i_location = location,
             pattern_matched = ''version_info''\<rparr>],
         call_patterns := bump ''version_info'' (bump ''system_message'' (call_patterns st))\<rparr>"
proof -
  have c: "determine_confidence ''version_info'' ms scenario_B_text = ''MEDIUM''" for ms
    by (simp add: determine_confidence_def matching_patterns_card matching_rules_B)
  have h: "determine_confidence ''system_message'' ms scenario_B_text = ''HIGH''" for ms
    by (simp add: determine_confidence_def)
  show ?thesis
    using findall_scenario_B
    by (simp add: announcement_patterns_def c h str_matches_B)
qed

text \<open>
  Claim C3. Analyzing a response whose single text block is the text of scenario B records an
  indicator for \<open>system_message\<close> with confidence HIGH and one for \<open>version_info\<close> with
  confidence MEDIUM, exactly two distinct registry rules matching that text. The operation
  returns normally and these two are all it records.
\<close>

theorem scenario_B_indicators:
  assumes "dict_get response ''content'' (PList []) = PList [PDict block]"
    and "dict_get block ''text'' (PStr []) = PStr scenario_B_text"
  shows "fst (intercept_response timestamp call_id response st) = Inr () \<and>
         indicators (snd (intercept_response timestamp call_id response st)) =
           indicators st @
           [\<lparr>i_timestamp = timestamp, i_call_id = call_id, indicator_type = ''system_message'',
             i_content = ''['[SYSTEM]']'',
             i_confidence = ''HIGH'', i_location = ''response_block_0'',
             pattern_matched = ''system_message''\<rparr>,
            \<lparr>i_timestamp = timestamp, i_call_id = call_id, indicator_type = ''version_info'',
             i_content = ''['Version 2.1']'',
             i_confidence = ''MEDIUM'', i_location = ''response_block_0'',
             pattern_matched = ''version_info''\<rparr>] \<and>
         card (matching_rules scenario_B_text) = 2"
proof -
  have t: "truthy (PStr scenario_B_text)" by (simp add: scenario_B_text_def)
  have "card (matching_rules scenario_B_text) = 2" by (simp add: matching_rules_B)
  then show ?thesis
    using assms t
    by (simp add: intercept_response_def analyze_response_for_announcements_def block_scan_def
        check_patterns_scenario_B str_of_nat_0)
qed

theorem scenario_B_indicators_witness:
  "map (\<lambda>i. (indicator_type i, i_confidence i))
     (indicators (snd (intercept_response ''t'' ''c'' scenario_B_response init))) =
     [(''system_message'', ''HIGH''), (''version_info'', ''MEDIUM'')]"
proof -
  have a: "dict_get scenario_B_response ''content'' (PList []) =
           PList [PDict [(''type'', PStr ''text''), (''text'', PStr scenario_B_text)]]"
    by (simp add: scenario_B_response_def dict_get_def)
  have b: "dict_get [(''type'', PStr ''text''), (''text'', PStr scenario_B_text)] ''text'' (PStr [])
           = PStr scenario_B_text"
    by (simp add: dict_get_def)
  show ?thesis
    using scenario_B_indicators [OF a b, of "''t''" "''c''" init] by (simp add: init_def)
qed

section \<open>The scanner and the text it stores\<close>

lemma check_patterns_indicators:
  "indicators (check_patterns call_id content location timestamp pats st) =
     indicators st @
     map (\<lambda>r. \<lparr>i_timestamp = timestamp, i_call_id = call_id, indicator_type = fst r,
                i_content = take 200 (str_matches (snd r)),
                i_confidence = determine_confidence (fst r) (snd r) content,
                i_location = location, pattern_matched = fst r\<rparr>)
       (filter (\<lambda>r. snd r \<noteq> []) (map (\<lambda>np. (fst np, findall (snd np) content)) pats))"
proof (induction pats arbitrary: st)
  case Nil
  then show ?case by simp
next
  case (Cons np pats)
  obtain pattern_name pat where np: "np = (pattern_name, pat)" by (cases np)
  show ?case using Cons.IH np by (simp add: Let_def)
qed





section \<open>The report: grouping\<close>

lemma group_append_sum:
  "sum_list (map (\<lambda>g. length (snd g)) (group_append k x grouped)) =
   Suc (sum_list (map (\<lambda>g. length (snd g)) grouped))"
  by (induction k x grouped rule: group_append.induct) auto

lemma group_append_mset:
  "mset (concat (map snd (group_append k x grouped))) =
   add_mset x (mset (concat (map snd grouped)))"
  by (induction k x grouped rule: group_append.induct) auto

lemma group_append_keys:
  "set (map fst (group_append k x grouped)) = insert k (set (map fst grouped))"
  by (induction k x grouped rule: group_append.induct) auto

lemma group_append_distinct:
  "distinct (map fst grouped) \<Longrightarrow> distinct (map fst (group_append k x grouped))"
proof (induction k x grouped rule: group_append.induct)
  case (1 k x)
  then show ?case by simp
next
  case (2 k x k' xs kvs)
  have "k' \<notin> set (map fst (group_append k x kvs))" if "k \<noteq> k'"
    using that "2.prems" by (simp add: group_append_keys del: set_map)
  then show ?case using 2 by auto
qed

lemma group_append_homogeneous:
  "list_all (\<lambda>g. list_all (\<lambda>i. key i = fst g) (snd g)) grouped \<Longrightarrow>
   list_all (\<lambda>g. list_all (\<lambda>i. key i = fst g) (snd g)) (group_append (key x) x grouped)"
  by (induction "key x" x grouped rule: group_append.induct) auto

lemma foldl_group_facts:
  "sum_list (map (\<lambda>g. length (snd g)) (foldl (\<lambda>grouped i. group_append (key i) i grouped) g0 inds)) =
     length inds + sum_list (map (\<lambda>g. length (snd g)) g0) \<and>
   mset (concat (map snd (foldl (\<lambda>grouped i. group_append (key i) i grouped) g0 inds))) =
     mset inds + mset (concat (map snd g0)) \<and>
   (distinct (map fst g0) \<longrightarrow>
      distinct (map fst (foldl (\<lambda>grouped i. group_append (key i) i grouped) g0 inds))) \<and>
   (list_all (\<lambda>g. list_all (\<lambda>i. key i = fst g) (snd g)) g0 \<longrightarrow>
      list_all (\<lambda>g. list_all (\<lambda>i. key i = fst g) (snd g))
        (foldl (\<lambda>grouped i. group_append (key i) i grouped) g0 inds))"
  by (induction inds arbitrary: g0)
     (simp_all add: group_append_sum group_append_mset group_append_distinct
        group_append_homogeneous)

lemma group_indicators_facts:
  "sum_list (map (\<lambda>g. length (snd g)) (group_indicators key inds)) = length inds"
  "mset (concat (map snd (group_indicators key inds))) = mset inds"
  "distinct (map fst (group_indicators key inds))"
  "list_all (\<lambda>g. list_all (\<lambda>i. key i = fst g) (snd g)) (group_indicators key inds)"
  using foldl_group_facts [of key "[]" inds] by (simp_all add: group_indicators_def)

text \<open>
  Claim C8. For every state of the ledger, \<open>total_indicators\<close> of the report is the sum of the
  sizes of the groups of \<open>indicators_by_confidence\<close> and also of those of
  \<open>indicators_by_type\<close>; each grouping is a partition of the list of indicators: the groups
  together hold exactly the indicators, under distinct keys, each group holding indicators
  of its key.
\<close>

theorem report_totals:
  "total_indicators (r_summary (generate_report now st)) =
     sum_list (map (\<lambda>g. length (snd g)) (indicators_by_confidence (generate_report now st))) \<and>
   total_indicators (r_summary (generate_report now st)) =
     sum_list (map (\<lambda>g. length (snd g)) (indicators_by_type (generate_report now st))) \<and>
   mset (concat (map snd (indicators_by_confidence (generate_report now st)))) =
     mset (indicators st) \<and>
   mset (concat (map snd (indicators_by_type (generate_report now st)))) =
     mset (indicators st) \<and>
   distinct (map fst (indicators_by_confidence (generate_report now st))) \<and>
   distinct (map fst (indicators_by_type (generate_report now st))) \<and>
   list_all (\<lambda>g. list_all (\<lambda>i. i_confidence i = fst g) (snd g))
     (indicators_by_confidence (generate_report now st)) \<and>
   list_all (\<lambda>g. list_all (\<lambda>i. indicator_type i = fst g) (snd g))
     (indicators_by_type (generate_report now st))"
  by (simp add: generate_report_def group_indicators_by_confidence_def
      group_indicators_by_type_def group_indicators_facts)

section \<open>The scenarios, evaluated\<close>

lemma run_scenario_C: "indicators (run scenario_C) = []"
  by code_simp

lemma run_scenario_C_calls: "map c_call_id (calls (run scenario_C)) = [''c1'', ''c1'']"
  by code_simp

lemma run_two_user:
  "map indicator_type (indicators (run [Request ''t'' ''c'' ''e'' two_user_request])) =
     [''unexpected_message_count'']"
  by code_simp

section \<open>Indicators and the ledger of calls\<close>

lemma run_references:
  "list_all (\<lambda>i. i_call_id i \<in> c_call_id ` set (calls (run ops))) (indicators (run ops))"
  using consistent_run [of ops] by (simp add: consistent_def list_all_iff)

lemma exec_shape:
  "exec op st = st \<or>
   (\<exists>c. calls (exec op st) = calls st @ [c] \<and>
        indicators (exec op st) = indicators st @ new_indicators st (exec op st) \<and>
        list_all (\<lambda>i. i_call_id i = c_call_id c) (new_indicators st (exec op st)))"
proof -
  consider "exec op st = st"
    | c where "appends (c_call_id c) (st\<lparr>calls := calls st @ [c]\<rparr>) (exec op st)"
    using exec_cases [of op st] by blast
  then show ?thesis
  proof cases
    case 1
    then show ?thesis by simp
  next
    case 2
    then have "calls (exec op st) = calls st @ [c] \<and>
        indicators (exec op st) = indicators st @ new_indicators st (exec op st) \<and>
        list_all (\<lambda>i. i_call_id i = c_call_id c) (new_indicators st (exec op st))"
      by (simp add: appends_def new_indicators_def list_all_iff)
    then show ?thesis by blast
  qed
qed

text \<open>
  Claim C7. After any sequence of operations every recorded indicator bears the identifier of
  a call of the ledger; and the call was there when the indicator was appended: an operation
  either leaves the interceptor as it is (it raised before it recorded its call) or appends
  one call to the ledger and, besides, only indicators that bear the identifier of that call.
  The pipeline runs on the ledger that already holds the call and leaves the ledger alone
  (lemmas \<open>intercept_request_cases\<close>, \<open>intercept_response_cases\<close>).
\<close>

theorem indicator_references_ledger:
  "(\<forall>i \<in> set (indicators (run ops)). \<exists>c \<in> set (calls (run ops)). c_call_id c = i_call_id i) \<and>
   (run (ops @ [op]) = run ops \<or>
    (\<exists>c. calls (run (ops @ [op])) = calls (run ops) @ [c] \<and>
         indicators (run (ops @ [op])) =
           indicators (run ops) @ new_indicators (run ops) (run (ops @ [op])) \<and>
         (\<forall>i \<in> set (new_indicators (run ops) (run (ops @ [op]))). i_call_id i = c_call_id c)))"
proof -
  have "\<forall>i \<in> set (indicators (run ops)). \<exists>c \<in> set (calls (run ops)). c_call_id c = i_call_id i"
    using run_references [of ops] by (fastforce simp: list_all_iff)
  moreover have "run (ops @ [op]) = run ops \<or>
    (\<exists>c. calls (run (ops @ [op])) = calls (run ops) @ [c] \<and>
         indicators (run (ops @ [op])) =
           indicators (run ops) @ new_indicators (run ops) (run (ops @ [op])) \<and>
         (\<forall>i \<in> set (new_indicators (run ops) (run (ops @ [op]))). i_call_id i = c_call_id c))"
    using exec_shape [of op "run ops"] by (simp add: run_snoc list_all_iff)
  ultimately show ?thesis by blast
qed

lemma run_scenario_BC:
  "map i_call_id (indicators (run scenario_BC)) = [''c3'', ''c3'']"
  by code_simp

theorem indicator_references_ledger_witness:
  "map i_call_id (indicators (run scenario_BC)) = [''c3'', ''c3''] \<and>
   (\<exists>c \<in> set (calls (run scenario_BC)). c_call_id c = ''c3'')"
proof -
  obtain i where i: "i \<in> set (indicators (run scenario_BC))" "i_call_id i = ''c3''"
    using run_scenario_BC by (cases "indicators (run scenario_BC)") auto
  show ?thesis
    using indicator_references_ledger [of scenario_BC "Response ''t'' ''c'' []"] i run_scenario_BC
    by metis
qed

section \<open>The frequency table\<close>

lemma from_registry_not_message_count:
  "from_registry i \<Longrightarrow> indicator_type i \<noteq> ''unexpected_message_count''"
  by (auto simp: from_registry_def announcement_patterns_def)

text \<open>
  Claim C10. The message-count indicators are never counted in the frequency table: after
  any sequence of operations the values of \<open>pattern_frequency\<close> sum to the number of
  indicators whose type is a registry rule, \<open>unexpected_message_count\<close> is no key of it, and
  \<open>unique_patterns\<close> is the number of distinct registry rules among the types of the
  indicators.
\<close>

theorem frequency_counts_registry_only:
  "sum_list (map snd (call_patterns (run ops))) =
     length (filter from_registry (indicators (run ops))) \<and>
   ''unexpected_message_count'' \<notin> set (map fst (pattern_frequency (generate_report now (run ops)))) \<and>
   unique_patterns (r_summary (generate_report now (run ops))) =
     card (indicator_type ` {i \<in> set (indicators (run ops)). from_registry i})"
proof -
  let ?names = "map indicator_type (filter from_registry (indicators (run ops)))"
  have cp: "call_patterns (run ops) = count_all ?names []"
    using consistent_run [of ops] by (simp add: consistent_def)
  have s: "sum_list (map snd (call_patterns (run ops))) =
           length (filter from_registry (indicators (run ops)))"
    by (simp add: cp sum_count_all)
  have k: "set (map fst (call_patterns (run ops))) = set ?names"
    by (simp add: cp keys_count_all del: set_map)
  have n: "''unexpected_message_count'' \<notin> set ?names"
    by (auto dest: from_registry_not_message_count)
  have u: "length (call_patterns (run ops)) = card (set ?names)"
    by (simp add: cp length_count_all)
  have e: "set ?names = indicator_type ` {i \<in> set (indicators (run ops)). from_registry i}"
    by auto
  show ?thesis
    using s k n u e by (simp add: generate_report_def del: set_map)
qed

text \<open>
  A request with two user messages: \<open>indicators_by_type\<close> has the group
  \<open>unexpected_message_count\<close> and \<open>unique_patterns\<close> is 0.
\<close>

theorem frequency_counts_registry_only_witness:
  "map fst (indicators_by_type
      (generate_report ''now'' (run [Request ''t'' ''c'' ''e'' two_user_request]))) =
     [''unexpected_message_count''] \<and>
   unique_patterns (r_summary
      (generate_report ''now'' (run [Request ''t'' ''c'' ''e'' two_user_request]))) = 0"
proof -
  have t: "map indicator_type (indicators (run [Request ''t'' ''c'' ''e'' two_user_request])) =
           [''unexpected_message_count'']"
    by (rule run_two_user)
  have g: "map fst (indicators_by_type
      (generate_report ''now'' (run [Request ''t'' ''c'' ''e'' two_user_request]))) =
     [''unexpected_message_count'']"
    by code_simp
  have "{i \<in> set (indicators (run [Request ''t'' ''c'' ''e'' two_user_request])). from_registry i} = {}"
    using t from_registry_not_message_count by (auto simp: map_eq_Cons_conv)
  then show ?thesis
    using frequency_counts_registry_only [of "[Request ''t'' ''c'' ''e'' two_user_request]" "''now''"] g
    by simp
qed

section \<open>The recommendations\<close>

lemma recommendations_none_iff:
  "(no_strong_message \<in> set (generate_recommendations st)) =
     (high_conf st = 0 \<and> frequency (call_patterns st) ''banner_format'' = 0 \<and>
      frequency (call_patterns st) ''system_message'' = 0 \<and>
      frequency (call_patterns st) ''date_reference'' = 0)"
  by (simp add: generate_recommendations_def no_strong_message_def Let_def)

lemma recommendations_none:
  "high_conf st = 0 \<Longrightarrow> frequency (call_patterns st) ''banner_format'' = 0 \<Longrightarrow>
   frequency (call_patterns st) ''system_message'' = 0 \<Longrightarrow>
   frequency (call_patterns st) ''date_reference'' = 0 \<Longrightarrow>
   generate_recommendations st = [no_strong_message]"
  by (simp add: generate_recommendations_def)

lemma high_conf_pos: "(high_conf st > 0) = (\<exists>i \<in> set (indicators st). i_confidence i = ''HIGH'')"
  by (simp add: high_conf_def filter_empty_conv)

lemma frequency_run:
  assumes "k \<in> set (map fst announcement_patterns)"
  shows "(frequency (call_patterns (run ops)) k > 0) =
         (\<exists>i \<in> set (indicators (run ops)). indicator_type i = k)"
proof -
  let ?names = "map indicator_type (filter from_registry (indicators (run ops)))"
  have cp: "call_patterns (run ops) = count_all ?names []"
    using consistent_run [of ops] by (simp add: consistent_def)
  have z: "frequency [] k = 0" by (simp add: frequency_def)
  have "frequency (call_patterns (run ops)) k = count_list ?names k"
    by (simp add: cp frequency_count_all z)
  then have "(frequency (call_patterns (run ops)) k > 0) = (k \<in> set ?names)"
    using count_list_0_iff [of ?names k] by auto
  also have "\<dots> = (\<exists>i \<in> set (indicators (run ops)). indicator_type i = k)"
    using assms by (auto simp: from_registry_def)
  finally show ?thesis .
qed

text \<open>
  Claim C9. After any sequence of operations: if no registry rule ever fired (no indicator
  was recorded, or only message-count ones), the list of recommendations is the single
  message that no strong indicator was detected; and whenever
  an indicator of confidence HIGH or of type \<open>banner_format\<close>, \<open>system_message\<close> or
  \<open>date_reference\<close> was recorded, that message is absent.
\<close>

theorem no_indicators_recommendation:
  "(filter from_registry (indicators (run ops)) = [] \<longrightarrow>
      recommendations (generate_report now (run ops)) = [no_strong_message]) \<and>
   ((\<exists>i \<in> set (indicators (run ops)).
        i_confidence i = ''HIGH'' \<or> indicator_type i = ''banner_format'' \<or>
        indicator_type i = ''system_message'' \<or> indicator_type i = ''date_reference'') \<longrightarrow>
      no_strong_message \<notin> set (recommendations (generate_report now (run ops))))"
proof -
  have b: "(frequency (call_patterns (run ops)) ''banner_format'' > 0) =
           (\<exists>i \<in> set (indicators (run ops)). indicator_type i = ''banner_format'')"
    by (rule frequency_run) (simp add: announcement_patterns_def)
  have s: "(frequency (call_patterns (run ops)) ''system_message'' > 0) =
           (\<exists>i \<in> set (indicators (run ops)). indicator_type i = ''system_message'')"
    by (rule frequency_run) (simp add: announcement_patterns_def)
  have d: "(frequency (call_patterns (run ops)) ''date_reference'' > 0) =
           (\<exists>i \<in> set (indicators (run ops)). indicator_type i = ''date_reference'')"
    by (rule frequency_run) (simp add: announcement_patterns_def)
  have h: "(high_conf (run ops) > 0) = (\<exists>i \<in> set (indicators (run ops)). i_confidence i = ''HIGH'')"
    by (rule high_conf_pos)
  have 1: "recommendations (generate_report now (run ops)) = [no_strong_message]"
    if "filter from_registry (indicators (run ops)) = []"
  proof -
    have n: "\<not> from_registry i" if "i \<in> set (indicators (run ops))" for i
      using that \<open>filter from_registry (indicators (run ops)) = []\<close>
      by (simp add: filter_empty_conv)
    have m: "i_confidence i = ''MEDIUM''" if "i \<in> set (indicators (run ops))" for i
      using that n [OF that] consistent_run [of ops] by (auto simp: consistent_def list_all_iff)
    have t: "indicator_type i \<notin> set (map fst announcement_patterns)"
      if "i \<in> set (indicators (run ops))" for i
      using n [OF that] by (simp add: from_registry_def)
    have "high_conf (run ops) = 0"
      using h m by fastforce
    moreover have "frequency (call_patterns (run ops)) ''banner_format'' = 0"
      "frequency (call_patterns (run ops)) ''system_message'' = 0"
      "frequency (call_patterns (run ops)) ''date_reference'' = 0"
      using b s d t by (fastforce simp: announcement_patterns_def)+
    ultimately show ?thesis by (simp add: generate_report_def recommendations_none)
  qed
  have 2: "no_strong_message \<notin> set (recommendations (generate_report now (run ops)))"
    if "\<exists>i \<in> set (indicators (run ops)).
        i_confidence i = ''HIGH'' \<or> indicator_type i = ''banner_format'' \<or>
        indicator_type i = ''system_message'' \<or> indicator_type i = ''date_reference''"
  proof -
    have "high_conf (run ops) > 0 \<or> frequency (call_patterns (run ops)) ''banner_format'' > 0 \<or>
      frequency (call_patterns (run ops)) ''system_message'' > 0 \<or>
      frequency (call_patterns (run ops)) ''date_reference'' > 0"
      using that b s d h by auto
    then show ?thesis by (auto simp: generate_report_def recommendations_none_iff)
  qed
  show ?thesis using 1 2 by blast
qed

lemma run_B_types:
  "map indicator_type (indicators (run [Response ''t'' ''c'' scenario_B_response])) =
     [''system_message'', ''version_info'']"
  by code_simp

theorem no_indicators_recommendation_witness:
  "recommendations (generate_report ''now'' (run scenario_C)) = [no_strong_message] \<and>
   no_strong_message \<notin>
     set (recommendations (generate_report ''now'' (run [Response ''t'' ''c'' scenario_B_response])))"
proof -
  have "\<exists>i \<in> set (indicators (run [Response ''t'' ''c'' scenario_B_response])).
          i_confidence i = ''HIGH'' \<or> indicator_type i = ''banner_format'' \<or>
          indicator_type i = ''system_message'' \<or> indicator_type i = ''date_reference''"
    using run_B_types by (cases "indicators (run [Response ''t'' ''c'' scenario_B_response])") auto
  moreover have "filter from_registry (indicators (run scenario_C)) = []"
    by (simp add: run_scenario_C)
  ultimately show ?thesis
    using no_indicators_recommendation [of scenario_C "''now''"]
      no_indicators_recommendation [of "[Response ''t'' ''c'' scenario_B_response]" "''now''"]
    by blast
qed

section \<open>Requests of the declared types\<close>

lemma addsI:
  "indicators st' = indicators st @ new \<Longrightarrow> list_all P new \<Longrightarrow> adds P st st'"
  by (simp add: adds_def new_indicators_def)

lemma addsD:
  "adds P st st' \<Longrightarrow> \<exists>new. indicators st' = indicators st @ new \<and> list_all P new \<and>
     new_indicators st st' = new"
  by (auto simp: adds_def)

lemma adds_refl: "adds P st st"
  by (simp add: adds_def new_indicators_def)

lemma adds_trans:
  assumes "adds P a b" and "adds P b c"
  shows "adds P a c"
proof -
  obtain n1 where n1: "indicators b = indicators a @ n1" "list_all P n1"
    using addsD [OF assms(1)] by blast
  obtain n2 where n2: "indicators c = indicators b @ n2" "list_all P n2"
    using addsD [OF assms(2)] by blast
  show ?thesis by (rule addsI [where new = "n1 @ n2"]) (simp_all add: n1 n2)
qed

lemma adds_mono:
  "adds P st st' \<Longrightarrow> (\<And>i. P i \<Longrightarrow> Q i) \<Longrightarrow> adds Q st st'"
  by (auto simp: adds_def list_all_iff)

lemma check_patterns_adds:
  "adds (\<lambda>i. from_registry i \<and> i_location i = location) st
     (check_patterns call_id content location timestamp announcement_patterns st)"
  by (rule addsI [OF check_patterns_indicators])
     (auto simp: list_all_iff from_registry_def)

lemma check_messages_well_typed:
  "list_all is_dict messages \<Longrightarrow>
   fst (check_messages call_id timestamp i messages st) = Inr () \<and>
   calls (snd (check_messages call_id timestamp i messages st)) = calls st \<and>
   adds (\<lambda>i. from_registry i \<and> i_location i \<noteq> ''system_prompt'') st
     (snd (check_messages call_id timestamp i messages st))"
proof (induction messages arbitrary: i st)
  case Nil
  then show ?case by (simp add: adds_refl)
next
  case (Cons message messages)
  then obtain d where d: "message = PDict d" by (cases message) (simp_all add: is_dict_def)
  have rest: "list_all is_dict messages" using Cons.prems by simp
  show ?case
  proof (cases "dict_get d ''content'' (PStr [])")
    case (PStr s)
    let ?st1 = "check_patterns call_id s (''message_'' @ str_of_nat i) timestamp
                  announcement_patterns st"
    have a1: "adds (\<lambda>i. from_registry i \<and> i_location i \<noteq> ''system_prompt'') st ?st1"
      by (rule adds_mono [OF check_patterns_adds]) auto
    have c1: "calls ?st1 = calls st"
      using check_patterns_appends [of announcement_patterns call_id st s] by (simp add: appends_def)
    have e: "check_messages call_id timestamp i (message # messages) st =
             check_messages call_id timestamp (Suc i) messages ?st1"
      using d PStr by (simp add: is_str_def)
    show ?thesis
      using Cons.IH [OF rest, of "Suc i" ?st1] a1 c1 e adds_trans by auto
  qed (use d Cons.IH [OF rest, of "Suc i" st] in \<open>simp_all add: is_str_def\<close>)
qed

lemma user_message_count_well_typed:
  "list_all is_dict messages \<Longrightarrow>
   user_message_count messages = Inr (length (filter is_user_message messages))"
proof (induction messages)
  case Nil
  then show ?case by simp
next
  case (Cons msg messages)
  then obtain d where d: "msg = PDict d" by (cases msg) (simp_all add: is_dict_def)
  have "(dict_get d ''role'' PNone = PStr ''user'') = is_user_message msg"
    by (simp add: d is_user_message_def dict_get_def split: option.splits)
  then show ?case using Cons d by simp
qed

lemma tool_names_well_typed:
  "list_all is_dict tools \<Longrightarrow> tool_names tools = Inr (map tool_name tools)"
proof (induction tools)
  case Nil
  then show ?case by simp
next
  case (Cons tool tools)
  then obtain d where d: "tool = PDict d" by (cases tool) (simp_all add: is_dict_def)
  then show ?case using Cons by (simp add: tool_name_def)
qed

lemma well_typedD:
  assumes "well_typed_request params"
  shows "\<exists>ms. dict_get params ''messages'' (PList []) = PList ms \<and> list_all is_dict ms"
    and "\<exists>ts. dict_get params ''tools'' (PList []) = PList ts \<and> list_all is_dict ts"
    and "(\<exists>s. dict_get params ''system'' (PStr []) = PStr s) \<or>
         dict_get params ''system'' (PStr []) = PNone"
  using assms
  by (auto simp: well_typed_request_def dict_get_def is_str_def
      split: option.splits pyval.splits)

lemma check_system_prompt_well_typed:
  assumes "(\<exists>s. c_system_prompt call = PStr s) \<or> c_system_prompt call = PNone"
  shows "fst (check_system_prompt call st) = Inr () \<and>
         calls (snd (check_system_prompt call st)) = calls st \<and>
         adds (\<lambda>i. from_registry i \<and> truthy (c_system_prompt call)) st
           (snd (check_system_prompt call st))"
proof (cases "truthy (c_system_prompt call)")
  case False
  then show ?thesis by (simp add: check_system_prompt_def adds_refl)
next
  case True
  then obtain s where s: "c_system_prompt call = PStr s" using assms by auto
  have c1: "calls (check_patterns (c_call_id call) s ''system_prompt'' (c_timestamp call)
              announcement_patterns st) = calls st"
    using check_patterns_appends [of announcement_patterns "c_call_id call" st s]
    by (simp add: appends_def)
  have "adds (\<lambda>i. from_registry i \<and> truthy (c_system_prompt call)) st
          (check_patterns (c_call_id call) s ''system_prompt'' (c_timestamp call)
              announcement_patterns st)"
    by (rule adds_mono [OF check_patterns_adds]) (simp add: True)
  then show ?thesis using True s c1 by (simp add: check_system_prompt_def)
qed

lemma check_message_count_well_typed:
  assumes "c_messages call = PList ms" and "list_all is_dict ms"
  shows "check_message_count call st =
           (Inr (), if length (filter is_user_message ms) > 1
                    then st\<lparr>indicators := indicators st @
                           [message_count_indicator call (length (filter is_user_message ms))]\<rparr>
                    else st)"
  using assms by (simp add: check_message_count_def user_message_count_well_typed)

text \<open>The shape of a request that is well typed.\<close>

lemma intercept_request_well_typed:
  assumes wt: "well_typed_request params"
  shows "\<exists>call scanned.
     fst (intercept_request timestamp call_id endpoint params st) = Inr call_id \<and>
     calls (snd (intercept_request timestamp call_id endpoint params st)) = calls st @ [call] \<and>
     call = \<lparr>c_timestamp = timestamp, c_call_id = call_id, c_type = ''request'',
             c_endpoint = endpoint, c_model = dict_get params ''model'' (PStr ''unknown''),
             c_messages = dict_get params ''messages'' (PList []),
             c_system_prompt = dict_get params ''system'' (PStr []),
             c_tools = (case dict_get params ''tools'' (PList []) of
                          PList ts \<Rightarrow> map tool_name ts | _ \<Rightarrow> []),
             c_metadata = params\<rparr> \<and>
     indicators (snd (intercept_request timestamp call_id endpoint params st)) =
       indicators st @ scanned @
       (if length (user_messages params) > 1
        then [message_count_indicator call (length (user_messages params))] else []) \<and>
     list_all (\<lambda>i. from_registry i \<and>
                 (i_location i = ''system_prompt'' \<longrightarrow>
                    truthy (dict_get params ''system'' (PStr [])))) scanned"
proof -
  obtain ms where ms: "dict_get params ''messages'' (PList []) = PList ms" "list_all is_dict ms"
    using well_typedD(1) [OF wt] by blast
  obtain ts where ts: "dict_get params ''tools'' (PList []) = PList ts" "list_all is_dict ts"
    using well_typedD(2) [OF wt] by blast
  define call where "call = \<lparr>c_timestamp = timestamp, c_call_id = call_id, c_type = ''request'',
             c_endpoint = endpoint, c_model = dict_get params ''model'' (PStr ''unknown''),
             c_messages = dict_get params ''messages'' (PList []),
             c_system_prompt = dict_get params ''system'' (PStr []),
             c_tools = map tool_name ts,
             c_metadata = params\<rparr>"
  define st1 where "st1 = st\<lparr>calls := calls st @ [call]\<rparr>"
  define st2 where "st2 = snd (check_system_prompt call st1)"
  define st3 where "st3 = snd (check_messages call_id timestamp 0 ms st2)"
  define n where "n = length (filter is_user_message ms)"
  have sysv: "(\<exists>s. c_system_prompt call = PStr s) \<or> c_system_prompt call = PNone"
    using well_typedD(3) [OF wt] by (simp add: call_def)
  have p1: "check_system_prompt call st1 = (Inr (), st2)"
    using check_system_prompt_well_typed [OF sysv, of st1]
    by (cases "check_system_prompt call st1") (simp add: st2_def)
  have c2: "calls st2 = calls st1"
    and a2: "adds (\<lambda>i. from_registry i \<and> truthy (c_system_prompt call)) st1 st2"
    using check_system_prompt_well_typed [OF sysv, of st1] by (simp_all add: st2_def)
  have p2: "check_messages call_id timestamp 0 ms st2 = (Inr (), st3)"
    using check_messages_well_typed [OF ms(2), of call_id timestamp 0 st2]
    by (cases "check_messages call_id timestamp 0 ms st2") (simp add: st3_def)
  have c3: "calls st3 = calls st2"
    and a3: "adds (\<lambda>i. from_registry i \<and> i_location i \<noteq> ''system_prompt'') st2 st3"
    using check_messages_well_typed [OF ms(2), of call_id timestamp 0 st2]
    by (simp_all add: st3_def)
  have cm: "c_messages call = PList ms" by (simp add: call_def ms)
  have p3: "check_message_count call st3 =
      (Inr (), if n > 1 then st3\<lparr>indicators := indicators st3 @ [message_count_indicator call n]\<rparr>
               else st3)"
    using check_message_count_well_typed [OF cm ms(2)] by (simp add: n_def)
  have an: "analyze_request_for_announcements call st1 =
      (Inr (), if n > 1 then st3\<lparr>indicators := indicators st3 @ [message_count_indicator call n]\<rparr>
               else st3)"
    using p1 p2 p3 cm by (simp add: analyze_request_for_announcements_def call_def)
  have ir: "intercept_request timestamp call_id endpoint params st =
      (Inr call_id, if n > 1 then st3\<lparr>indicators := indicators st3 @ [message_count_indicator call n]\<rparr>
               else st3)"
    using an ts tool_names_well_typed [OF ts(2)]
    by (simp add: intercept_request_def call_def st1_def Let_def)
  obtain n1 where n1: "indicators st2 = indicators st1 @ n1"
      "list_all (\<lambda>i. from_registry i \<and> truthy (c_system_prompt call)) n1"
    using addsD [OF a2] by blast
  obtain n2 where n2: "indicators st3 = indicators st2 @ n2"
      "list_all (\<lambda>i. from_registry i \<and> i_location i \<noteq> ''system_prompt'') n2"
    using addsD [OF a3] by blast
  have un: "length (user_messages params) = n" by (simp add: user_messages_def ms n_def)
  have "fst (intercept_request timestamp call_id endpoint params st) = Inr call_id"
    by (simp add: ir)
  moreover have "calls (snd (intercept_request timestamp call_id endpoint params st)) =
                 calls st @ [call]"
    by (simp add: ir c3 c2 st1_def)
  moreover have "call = \<lparr>c_timestamp = timestamp, c_call_id = call_id, c_type = ''request'',
             c_endpoint = endpoint, c_model = dict_get params ''model'' (PStr ''unknown''),
             c_messages = dict_get params ''messages'' (PList []),
             c_system_prompt = dict_get params ''system'' (PStr []),
             c_tools = (case dict_get params ''tools'' (PList []) of
                          PList ts \<Rightarrow> map tool_name ts | _ \<Rightarrow> []),
             c_metadata = params\<rparr>"
    by (simp add: call_def ts)
  moreover have "indicators (snd (intercept_request timestamp call_id endpoint params st)) =
       indicators st @ (n1 @ n2) @
       (if length (user_messages params) > 1
        then [message_count_indicator call (length (user_messages params))] else [])"
    by (simp add: ir n1 n2 un st1_def)
  moreover have "list_all (\<lambda>i. from_registry i \<and>
                 (i_location i = ''system_prompt'' \<longrightarrow>
                    truthy (dict_get params ''system'' (PStr [])))) (n1 @ n2)"
    using n1(2) n2(2) by (auto simp: list_all_iff call_def)
  ultimately show ?thesis by blast
qed

lemma new_indicators_append:
  "indicators st' = indicators st @ new \<Longrightarrow> new_indicators st st' = new"
  by (simp add: new_indicators_def)

text \<open>
  A request of the declared types is intercepted without an exception, and what it records
  holds exactly one indicator of type \<open>unexpected_message_count\<close>, of confidence MEDIUM,
  when two or more of its messages have role \<open>user\<close>, and none when at most one has,
  whatever the messages say.
\<close>

lemma message_count_well_typed:
  assumes "well_typed_request params"
  shows "fst (intercept_request timestamp call_id endpoint params st) = Inr call_id \<and>
         filter (\<lambda>i. indicator_type i = ''unexpected_message_count'')
           (new_indicators st (snd (intercept_request timestamp call_id endpoint params st))) =
         (if 2 \<le> length (user_messages params) then
            [\<lparr>i_timestamp = timestamp, i_call_id = call_id,
              indicator_type = ''unexpected_message_count'',
              i_content = ''Found '' @ str_of_nat (length (user_messages params)) @
                          '' user messages in single request'',
              i_confidence = ''MEDIUM'', i_location = ''message_list'',
              pattern_matched = ''multiple_user_messages''\<rparr>]
          else [])"
proof -
  obtain call scanned where
    r: "fst (intercept_request timestamp call_id endpoint params st) = Inr call_id"
    and c: "c_timestamp call = timestamp" "c_call_id call = call_id"
    and i: "indicators (snd (intercept_request timestamp call_id endpoint params st)) =
       indicators st @ scanned @
       (if length (user_messages params) > 1
        then [message_count_indicator call (length (user_messages params))] else [])"
    and l: "list_all (\<lambda>i. from_registry i \<and>
                 (i_location i = ''system_prompt'' \<longrightarrow>
                    truthy (dict_get params ''system'' (PStr [])))) scanned"
    using intercept_request_well_typed [OF assms, of timestamp call_id endpoint st] by force
  have n: "new_indicators st (snd (intercept_request timestamp call_id endpoint params st)) =
       scanned @
       (if length (user_messages params) > 1
        then [message_count_indicator call (length (user_messages params))] else [])"
    by (rule new_indicators_append [OF i])
  have f: "filter (\<lambda>i. indicator_type i = ''unexpected_message_count'') scanned = []"
    using l from_registry_not_message_count by (auto simp: filter_empty_conv list_all_iff)
  show ?thesis
    using r by (simp add: n f message_count_indicator_def c)
qed

lemma two_user_facts:
  "well_typed_request two_user_request" "length (user_messages two_user_request) = 2"
  "well_typed_request plain_request" "length (user_messages plain_request) = 1"
  by code_simp+

lemma message_count_well_typed_example:
  "map i_confidence
     (filter (\<lambda>i. indicator_type i = ''unexpected_message_count'')
        (new_indicators init (snd (intercept_request ''t'' ''c'' ''e'' two_user_request init)))) =
     [''MEDIUM''] \<and>
   filter (\<lambda>i. indicator_type i = ''unexpected_message_count'')
     (new_indicators init (snd (intercept_request ''t'' ''c'' ''e'' plain_request init))) = []"
  using message_count_well_typed [OF two_user_facts(1), of "''t''" "''c''" "''e''" init]
    message_count_well_typed [OF two_user_facts(3), of "''t''" "''c''" "''e''" init]
  by (simp add: two_user_facts)

section \<open>Requests of any shape\<close>

lemma check_content_adds:
  "adds (\<lambda>i. i_location i = location) st
     (snd (check_content_for_patterns call_id v location timestamp st))"
proof (cases v)
  case (PStr s)
  then show ?thesis using adds_mono [OF check_patterns_adds] by simp
qed (simp_all add: adds_refl)

lemma check_messages_adds:
  "adds (\<lambda>i. i_location i \<noteq> ''system_prompt'') st
     (snd (check_messages call_id timestamp i messages st))"
proof (induction messages arbitrary: i st)
  case Nil
  then show ?case by (simp add: adds_refl)
next
  case (Cons message messages)
  show ?case
  proof (cases "py_get message ''content'' (PStr [])")
    case (Inl e)
    then show ?thesis by (simp add: adds_refl)
  next
    case (Inr content)
    show ?thesis
    proof (cases "is_str content")
      case False
      then show ?thesis using Inr Cons.IH by simp
    next
      case True
      obtain r st' where c: "check_content_for_patterns call_id content
          (''message_'' @ str_of_nat i) timestamp st = (r, st')"
        by (cases "check_content_for_patterns call_id content
          (''message_'' @ str_of_nat i) timestamp st")
      have "adds (\<lambda>i'. i_location i' = ''message_'' @ str_of_nat i) st st'"
        using check_content_adds [of "''message_'' @ str_of_nat i" st call_id content timestamp] c
        by simp
      then have a1: "adds (\<lambda>i. i_location i \<noteq> ''system_prompt'') st st'"
        by (rule adds_mono) simp
      show ?thesis
      proof (cases r)
        case (Inl e)
        then show ?thesis using Inr True c a1 by simp
      next
        case (Inr u)
        have "adds (\<lambda>i. i_location i \<noteq> ''system_prompt'') st
                (snd (check_messages call_id timestamp (Suc i) messages st'))"
          using adds_trans [OF a1 Cons.IH] .
        then show ?thesis using \<open>py_get message ''content'' (PStr []) = Inr content\<close> True c Inr
          by simp
      qed
    qed
  qed
qed

lemma check_message_count_adds:
  "adds (\<lambda>i. i_location i \<noteq> ''system_prompt'') st (snd (check_message_count call st))"
proof -
  have one: "adds (\<lambda>i. i_location i \<noteq> ''system_prompt'') st
      (st\<lparr>indicators := indicators st @ [message_count_indicator call n]\<rparr>)" for n
    by (rule addsI [where new = "[message_count_indicator call n]"])
       (simp_all add: message_count_indicator_def)
  show ?thesis
    by (simp add: check_message_count_def adds_refl one split: sum.splits)
qed

lemma analyze_request_no_system_location:
  assumes "\<not> truthy (c_system_prompt call)"
  shows "adds (\<lambda>i. i_location i \<noteq> ''system_prompt'') st
           (snd (analyze_request_for_announcements call st))"
proof -
  have s1: "check_system_prompt call st = (Inr (), st)"
    using assms by (simp add: check_system_prompt_def)
  show ?thesis
  proof (cases "py_iter (c_messages call)")
    case (Inl e)
    then show ?thesis using s1 by (simp add: analyze_request_for_announcements_def adds_refl)
  next
    case (Inr messages)
    obtain r2 st2 where s2:
      "check_messages (c_call_id call) (c_timestamp call) 0 messages st = (r2, st2)"
      by (cases "check_messages (c_call_id call) (c_timestamp call) 0 messages st")
    have a2: "adds (\<lambda>i. i_location i \<noteq> ''system_prompt'') st st2"
      using check_messages_adds [of st "c_call_id call" "c_timestamp call" 0 messages] s2 by simp
    show ?thesis
    proof (cases r2)
      case (Inl e)
      then show ?thesis using s1 Inr s2 a2 by (simp add: analyze_request_for_announcements_def)
    next
      case (Inr u)
      have "adds (\<lambda>i. i_location i \<noteq> ''system_prompt'') st (snd (check_message_count call st2))"
        using adds_trans [OF a2 check_message_count_adds] .
      then show ?thesis using s1 \<open>py_iter (c_messages call) = Inr messages\<close> s2 Inr
        by (simp add: analyze_request_for_announcements_def)
    qed
  qed
qed

lemma tool_names_Inr:
  "tool_names xs = Inr tools \<Longrightarrow> list_all is_dict xs \<and> tools = map tool_name xs"
proof (induction xs arbitrary: tools)
  case Nil
  then show ?case by simp
next
  case (Cons tool xs)
  then obtain d where d: "tool = PDict d" by (cases tool) simp_all
  obtain ns where ns: "tool_names xs = Inr ns"
    using Cons.prems d by (cases "tool_names xs") simp_all
  have "tools = dict_get d ''name'' (PStr ''unknown'') # ns"
    using Cons.prems d ns by simp
  then show ?case using Cons.IH [OF ns] d by (simp add: is_dict_def tool_name_def)
qed

lemma tool_names_Inl:
  "tool_names xs = Inl e \<Longrightarrow> \<not> list_all is_dict xs"
  using tool_names_well_typed [of xs] by auto

text \<open>What a request stores, whatever its fields are.\<close>

lemma intercept_request_stored:
  "(new_calls st (snd (intercept_request timestamp call_id endpoint params st)) = [] \<and>
    (\<forall>xs. dict_get params ''tools'' (PList []) = PList xs \<longrightarrow> \<not> list_all is_dict xs)) \<or>
   (\<exists>xs. py_iter (dict_get params ''tools'' (PList [])) = Inr xs \<and> list_all is_dict xs \<and>
      new_calls st (snd (intercept_request timestamp call_id endpoint params st)) =
        [\<lparr>c_timestamp = timestamp, c_call_id = call_id, c_type = ''request'',
          c_endpoint = endpoint, c_model = dict_get params ''model'' (PStr ''unknown''),
          c_messages = dict_get params ''messages'' (PList []),
          c_system_prompt = dict_get params ''system'' (PStr []),
          c_tools = map tool_name xs, c_metadata = params\<rparr>] \<and>
      (\<not> truthy (dict_get params ''system'' (PStr [])) \<longrightarrow>
         list_all (\<lambda>i. i_location i \<noteq> ''system_prompt'')
           (new_indicators st (snd (intercept_request timestamp call_id endpoint params st)))))"
proof (cases "py_iter (dict_get params ''tools'' (PList []))")
  case (Inl e)
  then have "snd (intercept_request timestamp call_id endpoint params st) = st"
    by (simp add: intercept_request_def)
  moreover have "dict_get params ''tools'' (PList []) \<noteq> PList xs" for xs
    using Inl by auto
  ultimately show ?thesis by (simp add: new_calls_def)
next
  case (Inr ts)
  note it = this
  show ?thesis
  proof (cases "tool_names ts")
    case (Inl e)
    then have "snd (intercept_request timestamp call_id endpoint params st) = st"
      using it by (simp add: intercept_request_def)
    moreover have "\<not> list_all is_dict xs" if "dict_get params ''tools'' (PList []) = PList xs" for xs
      using that it tool_names_Inl [OF Inl] by simp
    ultimately show ?thesis by (simp add: new_calls_def)
  next
    case (Inr tools)
    have d: "list_all is_dict ts" and t: "tools = map tool_name ts"
      using tool_names_Inr [OF Inr] by simp_all
    let ?c = "\<lparr>c_timestamp = timestamp, c_call_id = call_id, c_type = ''request'',
               c_endpoint = endpoint, c_model = dict_get params ''model'' (PStr ''unknown''),
               c_messages = dict_get params ''messages'' (PList []),
               c_system_prompt = dict_get params ''system'' (PStr []),
               c_tools = map tool_name ts, c_metadata = params\<rparr>"
    let ?st1 = "st\<lparr>calls := calls st @ [?c]\<rparr>"
    let ?st' = "snd (intercept_request timestamp call_id endpoint params st)"
    have e: "?st' = snd (analyze_request_for_announcements ?c ?st1)"
      using it Inr t by (simp add: intercept_request_def Let_def split: prod.splits sum.splits)
    have "appends call_id ?st1 (snd (analyze_request_for_announcements ?c ?st1))"
      using analyze_request_appends [of ?c ?st1] by simp
    then have c: "calls ?st' = calls st @ [?c]" using e by (simp add: appends_def)
    have n: "new_calls st ?st' = [?c]" by (simp add: new_calls_def c)
    have l: "list_all (\<lambda>i. i_location i \<noteq> ''system_prompt'') (new_indicators st ?st')"
      if "\<not> truthy (dict_get params ''system'' (PStr []))"
    proof -
      have "adds (\<lambda>i. i_location i \<noteq> ''system_prompt'') ?st1 ?st'"
        using analyze_request_no_system_location [of ?c ?st1] that e by simp
      then show ?thesis by (simp add: adds_def new_indicators_def)
    qed
    show ?thesis using it d n l by blast
  qed
qed

lemma absent_defaults:
  "map_of params k = None \<Longrightarrow> dict_get params k dflt = dflt"
  by (simp add: dict_get_def)

text \<open>
  Claim C6. For every parameter mapping a missing field gets its default, not an exception:
  without \<open>system\<close> the recorded call has the empty system prompt, the scan of the system
  prompt is skipped and no indicator is located at \<open>system_prompt\<close>; without \<open>model\<close>
  the recorded call has the model \<open>unknown\<close>; without \<open>tools\<close> a call is recorded, with
  the empty list of tools; and a tool without a name is recorded as \<open>unknown\<close> at its place.
  A list of tools that are all dictionaries is recorded in full, and a list with another entry
  makes \<^verbatim>\<open>intercept_request\<close> raise before it records a call. A request whose present
  fields have the declared types returns normally.
\<close>

theorem missing_fields_default:
  "(map_of params ''system'' = None \<longrightarrow>
      list_all (\<lambda>c. c_system_prompt c = PStr [] \<and> check_system_prompt c s = (Inr (), s))
        (new_calls st (snd (intercept_request timestamp call_id endpoint params st))) \<and>
      list_all (\<lambda>i. i_location i \<noteq> ''system_prompt'')
        (new_indicators st (snd (intercept_request timestamp call_id endpoint params st)))) \<and>
   (map_of params ''model'' = None \<longrightarrow>
      list_all (\<lambda>c. c_model c = PStr ''unknown'')
        (new_calls st (snd (intercept_request timestamp call_id endpoint params st)))) \<and>
   (map_of params ''tools'' = None \<longrightarrow>
      (\<exists>c. new_calls st (snd (intercept_request timestamp call_id endpoint params st)) = [c] \<and>
           c_tools c = [])) \<and>
   (\<forall>ts. map_of params ''tools'' = Some (PList ts) \<longrightarrow>
      (list_all is_dict ts \<longrightarrow>
         (\<exists>c. new_calls st (snd (intercept_request timestamp call_id endpoint params st)) = [c] \<and>
              length (c_tools c) = length ts)) \<and>
      (\<not> list_all is_dict ts \<longrightarrow>
         new_calls st (snd (intercept_request timestamp call_id endpoint params st)) = []) \<and>
      (\<forall>k d. k < length ts \<and> ts ! k = PDict d \<and> map_of d ''name'' = None \<longrightarrow>
         list_all (\<lambda>c. c_tools c ! k = PStr ''unknown'')
           (new_calls st (snd (intercept_request timestamp call_id endpoint params st))))) \<and>
   (well_typed_request params \<longrightarrow>
      fst (intercept_request timestamp call_id endpoint params st) = Inr call_id)"
proof -
  let ?st' = "snd (intercept_request timestamp call_id endpoint params st)"
  note S = intercept_request_stored [of st timestamp call_id endpoint params]
  have 1: "list_all (\<lambda>c. c_system_prompt c = PStr [] \<and> check_system_prompt c s = (Inr (), s))
             (new_calls st ?st') \<and>
           list_all (\<lambda>i. i_location i \<noteq> ''system_prompt'') (new_indicators st ?st')"
    if a: "map_of params ''system'' = None"
  proof -
    have d: "dict_get params ''system'' (PStr []) = PStr []" by (rule absent_defaults [OF a])
    from S show ?thesis
    proof
      assume "new_calls st ?st' = [] \<and>
        (\<forall>xs. dict_get params ''tools'' (PList []) = PList xs \<longrightarrow> \<not> list_all is_dict xs)"
      then have n: "new_calls st ?st' = []" by simp
      have "?st' = st"
        using intercept_request_cases [of timestamp call_id endpoint params st] n
        by (auto simp: new_calls_def appends_def)
      then show ?thesis using n by (simp add: new_indicators_def)
    next
      assume "\<exists>xs. py_iter (dict_get params ''tools'' (PList [])) = Inr xs \<and> list_all is_dict xs \<and>
        new_calls st ?st' =
          [\<lparr>c_timestamp = timestamp, c_call_id = call_id, c_type = ''request'',
            c_endpoint = endpoint, c_model = dict_get params ''model'' (PStr ''unknown''),
            c_messages = dict_get params ''messages'' (PList []),
            c_system_prompt = dict_get params ''system'' (PStr []),
            c_tools = map tool_name xs, c_metadata = params\<rparr>] \<and>
        (\<not> truthy (dict_get params ''system'' (PStr [])) \<longrightarrow>
           list_all (\<lambda>i. i_location i \<noteq> ''system_prompt'') (new_indicators st ?st'))"
      then show ?thesis by (auto simp: d check_system_prompt_def)
    qed
  qed
  have 2: "list_all (\<lambda>c. c_model c = PStr ''unknown'') (new_calls st ?st')"
    if a: "map_of params ''model'' = None"
    using S absent_defaults [OF a, of "PStr ''unknown''"] by auto
  have 3: "\<exists>c. new_calls st ?st' = [c] \<and> c_tools c = []"
    if a: "map_of params ''tools'' = None"
  proof -
    have d: "dict_get params ''tools'' (PList []) = PList []" by (rule absent_defaults [OF a])
    show ?thesis using S by (auto simp: d)
  qed
  have 4: "(list_all is_dict ts \<longrightarrow>
              (\<exists>c. new_calls st ?st' = [c] \<and> length (c_tools c) = length ts)) \<and>
           (\<not> list_all is_dict ts \<longrightarrow> new_calls st ?st' = []) \<and>
           (\<forall>k d. k < length ts \<and> ts ! k = PDict d \<and> map_of d ''name'' = None \<longrightarrow>
              list_all (\<lambda>c. c_tools c ! k = PStr ''unknown'') (new_calls st ?st'))"
    if a: "map_of params ''tools'' = Some (PList ts)" for ts
  proof -
    have d: "dict_get params ''tools'' (PList []) = PList ts" using a by (simp add: dict_get_def)
    have u: "tool_name (PDict d) = PStr ''unknown''" if "map_of d ''name'' = None" for d
      using that by (simp add: tool_name_def dict_get_def)
    show ?thesis using S by (auto simp: d u)
  qed
  have 5: "fst (intercept_request timestamp call_id endpoint params st) = Inr call_id"
    if "well_typed_request params"
    using intercept_request_well_typed [OF that, of timestamp call_id endpoint st] by blast
  show ?thesis using 1 2 3 4 5 by blast
qed

theorem missing_fields_default_witness:
  "\<exists>c. new_calls init (snd (intercept_request ''t'' ''c'' ''e'' unnamed_tool_request init)) = [c] \<and>
       c_system_prompt c = PStr [] \<and> c_model c = PStr ''unknown'' \<and>
       c_tools c ! 0 = PStr ''unknown''"
proof -
  have a: "map_of unnamed_tool_request ''system'' = None"
    "map_of unnamed_tool_request ''model'' = None"
    "map_of unnamed_tool_request ''tools'' = Some (PList [PDict [], PDict [(''name'', PStr ''Read'')]])"
    by (simp_all add: unnamed_tool_request_def)
  have k: "(0::nat) < length [PDict [], PDict [(''name'', PStr ''Read'')]] \<and>
           [PDict [], PDict [(''name'', PStr ''Read'')]] ! 0 = PDict [] \<and>
           map_of ([] :: pydict) ''name'' = None"
    by simp
  have d: "list_all is_dict [PDict [], PDict [(''name'', PStr ''Read'')]]"
    by (simp add: is_dict_def)
  show ?thesis
    using missing_fields_default [of unnamed_tool_request "init" init "''t''" "''c''" "''e''"] a k d
    by (auto simp: list_all_iff)
qed

lemma check_content_adds_registry:
  "adds from_registry st (snd (check_content_for_patterns call_id v location timestamp st))"
proof (cases v)
  case (PStr s)
  then show ?thesis using adds_mono [OF check_patterns_adds] by simp
qed (simp_all add: adds_refl)

lemma check_system_prompt_adds_registry:
  "adds from_registry st (snd (check_system_prompt call st))"
  by (simp add: check_system_prompt_def adds_refl check_content_adds_registry)

lemma check_messages_returns:
  "fst (check_messages call_id timestamp i messages st) = Inr u \<Longrightarrow>
   list_all is_dict messages \<and>
   adds from_registry st (snd (check_messages call_id timestamp i messages st))"
proof (induction messages arbitrary: i st)
  case Nil
  then show ?case by (simp add: adds_refl)
next
  case (Cons message messages)
  obtain content where g: "py_get message ''content'' (PStr []) = Inr content"
    using Cons.prems by (cases "py_get message ''content'' (PStr [])") simp_all
  then have d: "is_dict message" by (cases message) (simp_all add: is_dict_def)
  show ?case
  proof (cases "is_str content")
    case False
    then have "fst (check_messages call_id timestamp (Suc i) messages st) = Inr u"
      using Cons.prems g by simp
    then show ?thesis using Cons.IH [of "Suc i" st] g False d by simp
  next
    case True
    obtain r st' where c: "check_content_for_patterns call_id content
        (''message_'' @ str_of_nat i) timestamp st = (r, st')"
      by (cases "check_content_for_patterns call_id content
        (''message_'' @ str_of_nat i) timestamp st")
    have a1: "adds from_registry st st'"
      using check_content_adds_registry [of st call_id content "''message_'' @ str_of_nat i"
          timestamp] c by simp
    obtain u' where r: "r = Inr u'"
      using Cons.prems g True c by (cases r) simp_all
    have "fst (check_messages call_id timestamp (Suc i) messages st') = Inr u"
      using Cons.prems g True c r by simp
    then have "list_all is_dict messages \<and>
        adds from_registry st' (snd (check_messages call_id timestamp (Suc i) messages st'))"
      by (rule Cons.IH)
    then show ?thesis using g True c r d a1 adds_trans by auto
  qed
qed

lemma py_iter_user_messages:
  "py_iter v = Inr messages \<Longrightarrow>
   filter is_user_message messages =
     (case v of PList xs \<Rightarrow> filter is_user_message xs | _ \<Rightarrow> [])"
  by (cases v) (auto simp: is_user_message_def filter_empty_conv)

lemma analyze_request_returns:
  assumes "fst (analyze_request_for_announcements call st) = Inr u"
  shows "\<exists>scanned.
     indicators (snd (analyze_request_for_announcements call st)) =
       indicators st @ scanned @
       (if length (case c_messages call of PList xs \<Rightarrow> filter is_user_message xs | _ \<Rightarrow> []) > 1
        then [message_count_indicator call
                (length (case c_messages call of PList xs \<Rightarrow> filter is_user_message xs | _ \<Rightarrow> []))]
        else []) \<and>
     list_all from_registry scanned"
proof -
  obtain r1 st1 where s1: "check_system_prompt call st = (r1, st1)"
    by (cases "check_system_prompt call st")
  have a1: "adds from_registry st st1"
    using check_system_prompt_adds_registry [of st call] s1 by simp
  obtain u1 where r1: "r1 = Inr u1"
    using assms s1 by (cases r1) (simp_all add: analyze_request_for_announcements_def)
  obtain ms where it: "py_iter (c_messages call) = Inr ms"
    using assms s1 r1
    by (cases "py_iter (c_messages call)") (simp_all add: analyze_request_for_announcements_def)
  obtain r2 st2 where s2:
    "check_messages (c_call_id call) (c_timestamp call) 0 ms st1 = (r2, st2)"
    by (cases "check_messages (c_call_id call) (c_timestamp call) 0 ms st1")
  obtain u2 where r2: "r2 = Inr u2"
    using assms s1 r1 it s2 by (cases r2) (simp_all add: analyze_request_for_announcements_def)
  have m: "list_all is_dict ms" and a2: "adds from_registry st1 st2"
    using check_messages_returns [of "c_call_id call" "c_timestamp call" 0 ms st1 u2] s2 r2
    by simp_all
  define n where "n = length (filter is_user_message ms)"
  have un: "length (case c_messages call of PList xs \<Rightarrow> filter is_user_message xs | _ \<Rightarrow> []) = n"
    using py_iter_user_messages [OF it] by (simp add: n_def)
  have cm: "check_message_count call st2 =
      (Inr (), if n > 1 then st2\<lparr>indicators := indicators st2 @ [message_count_indicator call n]\<rparr>
               else st2)"
    using it m by (simp add: check_message_count_def user_message_count_well_typed n_def)
  have an: "snd (analyze_request_for_announcements call st) =
      (if n > 1 then st2\<lparr>indicators := indicators st2 @ [message_count_indicator call n]\<rparr>
       else st2)"
    using s1 r1 it s2 r2 cm by (simp add: analyze_request_for_announcements_def)
  obtain n1 where n1: "indicators st1 = indicators st @ n1" "list_all from_registry n1"
    using addsD [OF a1] by blast
  obtain n2 where n2: "indicators st2 = indicators st1 @ n2" "list_all from_registry n2"
    using addsD [OF a2] by blast
  have "indicators (snd (analyze_request_for_announcements call st)) =
       indicators st @ (n1 @ n2) @
       (if n > 1 then [message_count_indicator call n] else [])"
    by (simp add: an n1 n2)
  moreover have "list_all from_registry (n1 @ n2)" using n1 n2 by simp
  ultimately show ?thesis unfolding un by blast
qed

lemma message_count_when_returns:
  assumes "fst (intercept_request timestamp call_id endpoint params st) = Inr r"
  shows "filter (\<lambda>i. indicator_type i = ''unexpected_message_count'')
           (new_indicators st (snd (intercept_request timestamp call_id endpoint params st))) =
         (if 2 \<le> length (user_messages params) then
            [\<lparr>i_timestamp = timestamp, i_call_id = call_id,
              indicator_type = ''unexpected_message_count'',
              i_content = ''Found '' @ str_of_nat (length (user_messages params)) @
                          '' user messages in single request'',
              i_confidence = ''MEDIUM'', i_location = ''message_list'',
              pattern_matched = ''multiple_user_messages''\<rparr>]
          else [])"
proof -
  obtain ts where it: "py_iter (dict_get params ''tools'' (PList [])) = Inr ts"
    using assms by (cases "py_iter (dict_get params ''tools'' (PList []))")
      (simp_all add: intercept_request_def)
  obtain tools where tn: "tool_names ts = Inr tools"
    using assms it by (cases "tool_names ts") (simp_all add: intercept_request_def)
  define call where "call = \<lparr>c_timestamp = timestamp, c_call_id = call_id, c_type = ''request'',
               c_endpoint = endpoint, c_model = dict_get params ''model'' (PStr ''unknown''),
               c_messages = dict_get params ''messages'' (PList []),
               c_system_prompt = dict_get params ''system'' (PStr []),
               c_tools = tools, c_metadata = params\<rparr>"
  define st1 where "st1 = st\<lparr>calls := calls st @ [call]\<rparr>"
  have e: "intercept_request timestamp call_id endpoint params st =
      (case analyze_request_for_announcements call st1 of
         (Inl e, st') \<Rightarrow> (Inl e, st') | (Inr u, st') \<Rightarrow> (Inr call_id, st'))"
    using it tn by (simp add: intercept_request_def call_def st1_def Let_def)
  obtain ra st' where a: "analyze_request_for_announcements call st1 = (ra, st')"
    by (cases "analyze_request_for_announcements call st1")
  obtain u where ra: "ra = Inr u" using assms e a by (cases ra) simp_all
  have s': "snd (intercept_request timestamp call_id endpoint params st) = st'"
    using e a ra by simp
  have um: "(case c_messages call of PList xs \<Rightarrow> filter is_user_message xs | _ \<Rightarrow> []) =
            user_messages params"
    by (simp add: call_def user_messages_def)
  obtain scanned where
    i: "indicators st' = indicators st @ scanned @
       (if length (user_messages params) > 1
        then [message_count_indicator call (length (user_messages params))] else [])"
    and l: "list_all from_registry scanned"
    using analyze_request_returns [of call st1 u] a ra um by (auto simp: st1_def)
  have n: "new_indicators st st' = scanned @
       (if length (user_messages params) > 1
        then [message_count_indicator call (length (user_messages params))] else [])"
    by (rule new_indicators_append [OF i])
  have f: "filter (\<lambda>i. indicator_type i = ''unexpected_message_count'') scanned = []"
    using l from_registry_not_message_count by (auto simp: filter_empty_conv list_all_iff)
  show ?thesis
    by (simp add: s' n f message_count_indicator_def call_def)
qed

text \<open>
  Claim C4. For every intercepted request with two or more messages of role \<open>user\<close>
  exactly one indicator of type \<open>unexpected_message_count\<close>, of confidence MEDIUM, is
  recorded, whatever the messages say, and none for a request with at most one. The
  interceptor does so whenever \<^verbatim>\<open>intercept_request\<close> returns (lemma
  \<open>message_count_when_returns\<close>), but not on every request: a system prompt that is a list
  of text blocks is truthy and is handed to \<^verbatim>\<open>findall\<close>, which raises
  \<^verbatim>\<open>TypeError\<close> before the messages are counted. The contents of the messages are
  guarded by \<^verbatim>\<open>isinstance(content, str)\<close>; the system prompt is not. On the request
  below two messages have role \<open>user\<close> and no indicator is recorded.
\<close>

theorem message_count_lost_on_list_system:
  "length (user_messages list_system_request) = 2 \<and>
   fst (intercept_request timestamp call_id endpoint list_system_request st) = Inl TypeError \<and>
   indicators (snd (intercept_request timestamp call_id endpoint list_system_request st)) =
     indicators st"
  by (simp add: list_system_request_def user_messages_def is_user_message_def dict_get_def
      intercept_request_def analyze_request_for_announcements_def check_system_prompt_def Let_def)

end
